theory Spec2Isabelle
  imports Complex_Main "HOL-Library.Log_Nat"
begin

section \<open>Data model\<close>

text \<open>
  The development embeds \<^verbatim>\<open>src/arcade/application.py\<close>: the fixed-step scheduler
  \<^verbatim>\<open>Window._dispatch_updates\<close>, the constructor and \<^verbatim>\<open>close\<close>, the view protocol
  \<^verbatim>\<open>show_view\<close>/\<^verbatim>\<open>hide_view\<close> and the class \<^verbatim>\<open>View\<close>.

  Objects with identity (windows, views) are referred to by a number; the View objects
  live in a store, because \<^verbatim>\<open>show_view\<close> mutates the view it is given and the window
  keeps a reference to it.
\<close>

subsection \<open>Floating-point numbers\<close>

text \<open>
  The times are Python floats, that is IEEE 754 doubles. A double is modelled by the
  rational number it stands for, and each sum and difference the source computes is
  rounded to the nearest double, ties to the even significand, as the hardware does:
  \<open>double x\<close> is the double nearest to \<open>x\<close>, with a significand of 53 bits. Comparisons
  of doubles are exact. The range of the exponent is not bounded: overflow to infinity
  and subnormal numbers are left out. A literal such as \<^verbatim>\<open>1 / 60\<close> is the double
  \<open>double (1 / 60)\<close>.
\<close>

text \<open>Rounding to the nearest integer, a tie to the even one.\<close>

definition round_half_even :: "rat \<Rightarrow> int" where
  "round_half_even x =
     (let n = \<lfloor>x\<rfloor>; r = x - of_int n
      in if r < 1 / 2 then n else if 1 / 2 < r then n + 1 else if even n then n else n + 1)"

text \<open>For a positive \<open>x\<close>, the exponent \<open>e\<close> with \<open>2 ^ e \<le> x < 2 ^ (e + 1)\<close>.\<close>

definition binade :: "rat \<Rightarrow> int" where
  "binade x =
     (let k = bitlen (fst (quotient_of x)) - bitlen (snd (quotient_of x))
      in if 2 powi k \<le> x then k else k - 1)"

definition double :: "rat \<Rightarrow> rat" where
  "double x =
     (if x = 0 then 0
      else (let e = binade \<bar>x\<bar> - 52;
                m = round_half_even (\<bar>x\<bar> / 2 powi e)
            in sgn x * of_int m * 2 powi e))"

type_synonym wid = nat
type_synonym vid = nat

text \<open>
  Modelled from the spec: the class \<^verbatim>\<open>Clock\<close> of \<^verbatim>\<open>arcade.clock\<close>, which is imported by
  the source and is not among the source files. Section 3 of the specification:
  \<^verbatim>\<open>time\<close>, \<^verbatim>\<open>delta_time\<close>, mutated only by \<^verbatim>\<open>tick(dt): time += dt; delta_time = dt\<close>.
  The sum is a sum of floats.
\<close>

record Clock =
  time :: rat
  delta_time :: rat

definition Clock_init :: Clock where
  "Clock_init = \<lparr>time = 0, delta_time = 0\<rparr>"

definition Clock_tick :: "rat \<Rightarrow> Clock \<Rightarrow> Clock" where
  "Clock_tick dt c = c\<lparr>time := double (time c + dt), delta_time := dt\<rparr>"

text \<open>
  Modelled from the spec: the class \<^verbatim>\<open>FixedClock\<close> of \<^verbatim>\<open>arcade.clock\<close>, not among the
  source files. It wraps the window's global clock (the sibling, shared with the
  window), has a constant step size and its own fixed-step time. The accumulated time
  is, in the specification's words, tracked as the gap between global time and fixed
  time, and \<^verbatim>\<open>tick(fixed_rate)\<close> advances the fixed time by the step, which lowers the
  accumulated time by the same amount, up to rounding. The sibling is the
  \<open>global_clock\<close> of the same window, so \<open>accumulated\<close> below reads both clocks from the
  window state.
\<close>

record FixedClock =
  fixed_time :: rat
  rate :: rat

definition FixedClock_init :: "rat \<Rightarrow> FixedClock" where
  "FixedClock_init fixed_tick_rate = \<lparr>fixed_time = 0, rate = fixed_tick_rate\<rparr>"

definition FixedClock_tick :: "rat \<Rightarrow> FixedClock \<Rightarrow> FixedClock" where
  "FixedClock_tick dt fc = fc\<lparr>fixed_time := double (fixed_time fc + dt)\<rparr>"

subsection \<open>Objects, handlers and the handler stack\<close>

text \<open>
  The objects whose bound methods end up on the handler stack: the window, a view, the
  section manager of a view, and the two input-state handlers the constructor creates.
\<close>

datatype obj =
    WindowObj wid
  | ViewObj vid
  | SectionManagerObj vid
  | KeyboardObj
  | MouseObj

text \<open>
  A handler is a bound method \<^verbatim>\<open>getattr(o, name)\<close>, or the \<^verbatim>\<open>None\<close> that
  \<^verbatim>\<open>getattr(o, name, None)\<close> yields for a missing attribute. A frame is the dict of one
  \<^verbatim>\<open>push_handlers\<close> call, kept as an association list with distinct keys in insertion
  order; the stack has its top frame first.
\<close>

datatype handler = Method obj string | PyNone

type_synonym frame = "(string \<times> handler) list"

text \<open>Setting \<^verbatim>\<open>d[k] = v\<close> in a Python dict, and building a dict from key/value pairs.\<close>

fun dict_set :: "('k \<times> 'v) list \<Rightarrow> 'k \<Rightarrow> 'v \<Rightarrow> ('k \<times> 'v) list" where
  "dict_set [] k v = [(k, v)]"
| "dict_set ((k', v') # d) k v =
     (if k' = k then (k, v) # d else (k', v') # dict_set d k v)"

fun dict_of :: "('k \<times> 'v) list \<Rightarrow> ('k \<times> 'v) list \<Rightarrow> ('k \<times> 'v) list" where
  "dict_of d [] = d"
| "dict_of d ((k, v) # kvs) = dict_of (dict_set d k v) kvs"

subsection \<open>Views and section managers\<close>

text \<open>
  Modelled from the spec: the class \<^verbatim>\<open>SectionManager\<close> of \<^verbatim>\<open>arcade.sections\<close>, not among
  the source files. The source reads three things from it: the flag \<^verbatim>\<open>has_sections\<close>,
  the collection \<^verbatim>\<open>managed_events\<close> of event names it claims, and its attributes by
  name; \<open>sm_attrs\<close> lists the names for which \<^verbatim>\<open>getattr\<close> finds a method.
\<close>

record SectionManager =
  sm_has_sections :: bool
  managed_events :: "string list"
  sm_attrs :: "string list"

text \<open>
  The class \<^verbatim>\<open>View\<close>. Its fields are \<^verbatim>\<open>window\<close>, \<^verbatim>\<open>key\<close> and \<^verbatim>\<open>_section_manager\<close>;
  \<open>attrs\<close> lists the attribute names a subclass or an instance adds to those of the class.
\<close>

record View =
  window :: "wid option"
  key :: "int option"
  section_manager :: "SectionManager option"
  attrs :: "string list"

text \<open>
  The attribute names every View object has: the three fields the constructor sets and
  the properties and methods the class defines, in source order. (The names every
  Python object has are left out; none is the name of an event.)
\<close>

definition View_attributes :: "string list" where
  "View_attributes =
     [''window'', ''key'', ''_section_manager'',
      ''section_manager'', ''has_sections'', ''add_section'', ''clear'',
      ''on_update'', ''on_fixed_update'', ''on_draw'', ''on_show'', ''on_show_view'',
      ''on_hide_view'', ''on_mouse_motion'', ''on_mouse_press'', ''on_mouse_drag'',
      ''on_mouse_release'', ''on_mouse_scroll'', ''on_key_press'', ''on_key_release'',
      ''on_resize'', ''on_mouse_enter'', ''on_mouse_leave'']"

definition hasattr_view :: "View \<Rightarrow> string \<Rightarrow> bool" where
  "hasattr_view v name = (name \<in> set View_attributes \<or> name \<in> set (attrs v))"

text \<open>The property \<^verbatim>\<open>View.has_sections\<close>.\<close>

definition has_sections :: "View \<Rightarrow> bool" where
  "has_sections v =
     (case section_manager v of None \<Rightarrow> False | Some sm \<Rightarrow> sm_has_sections sm)"

subsection \<open>The window and its environment\<close>

text \<open>
  The periodic callbacks handed to the host's clock: the window's own
  \<^verbatim>\<open>_dispatch_updates\<close> and the event loop's \<^verbatim>\<open>_redraw_windows\<close>.
\<close>

datatype callback = DispatchUpdates wid | RedrawWindows

text \<open>
  What a run does that is visible from outside, in the order it happens: an event
  dispatched with its argument, a hook called on an object, a frame pushed, the handlers
  of an object removed, the current view assigned, a view bound to a window, and a call
  into the graphics host.
\<close>

datatype action =
    Dispatch string rat
  | Call obj string
  | PushHandlers frame
  | RemoveHandlers obj
  | SetCurrentView "vid option"
  | BindWindow vid wid
  | Host string

datatype error =
    NoOpenGLException
  | TypeError string
  | RuntimeError

text \<open>
  The state: the fields of the one \<^verbatim>\<open>Window\<close> object, then what it shares with its
  environment: the store of View objects, the host clock's schedule, the event names
  and handler stack of the host's event dispatcher, the module-level current window
  that \<^verbatim>\<open>set_window\<close> assigns, the attribute names of the objects that are neither
  views nor section managers, and the trace of actions.
\<close>

record world =
  self :: wid
  global_clock :: Clock
  fixed_clock :: FixedClock
  update_rate :: rat
  draw_rate :: rat
  fixed_rate :: rat
  fixed_frame_cap :: "int option"
  current_view :: "vid option"
  event_types :: "string list"
  event_stack :: "frame list"
  views :: "vid \<Rightarrow> View"
  scheduled :: "(callback \<times> rat) list"
  active_window :: "wid option"
  other_attrs :: "obj \<Rightarrow> string list"
  trace :: "action list"

definition emit :: "action \<Rightarrow> world \<Rightarrow> world" where
  "emit a s = s\<lparr>trace := trace s @ [a]\<rparr>"

section \<open>The host: clock schedule and event dispatcher\<close>

text \<open>
  The host (pyglet) is outside the repository; it is modelled at the interface the
  source uses. \<^verbatim>\<open>pyglet.clock.unschedule(f)\<close> drops every entry of \<open>f\<close>,
  \<^verbatim>\<open>schedule_interval(f, rate)\<close> adds one.
\<close>

definition unschedule :: "callback \<Rightarrow> world \<Rightarrow> world" where
  "unschedule f s = s\<lparr>scheduled := filter (\<lambda>e. fst e \<noteq> f) (scheduled s)\<rparr>"

definition schedule_interval :: "callback \<Rightarrow> rat \<Rightarrow> world \<Rightarrow> world" where
  "schedule_interval f r s = s\<lparr>scheduled := scheduled s @ [(f, r)]\<rparr>"

text \<open>
  \<^verbatim>\<open>dispatch_event(name, arg)\<close> hands the event to the handlers on the stack and then to
  the window's own method. The handlers are user code; the model records the dispatch
  and leaves the state of the scheduler as it is.
\<close>

definition dispatch_event :: "string \<Rightarrow> rat \<Rightarrow> world \<Rightarrow> world" where
  "dispatch_event name arg s = emit (Dispatch name arg) s"

text \<open>
  \<^verbatim>\<open>push_handlers(**handlers)\<close> puts a new frame on top of the stack.
\<close>

definition push_handlers :: "frame \<Rightarrow> world \<Rightarrow> world" where
  "push_handlers f s = emit (PushHandlers f) (s\<lparr>event_stack := f # event_stack s\<rparr>)"

text \<open>
  The attribute names of an object, as \<^verbatim>\<open>dir\<close> lists them: for a view those of the
  class and what the instance adds, for a section manager its own, for the window and
  the input-state handlers what the environment says.
\<close>

definition obj_dir :: "(vid \<Rightarrow> View) \<Rightarrow> (obj \<Rightarrow> string list) \<Rightarrow> obj \<Rightarrow> string list" where
  "obj_dir vs other ob =
     (case ob of
        ViewObj v \<Rightarrow> View_attributes @ attrs (vs v)
      | SectionManagerObj v \<Rightarrow>
          (case section_manager (vs v) of None \<Rightarrow> [] | Some sm \<Rightarrow> sm_attrs sm)
      | _ \<Rightarrow> other ob)"

text \<open>
  The handlers an object stands for when it is passed whole to the dispatcher: its
  methods that are named like a registered event.
\<close>

definition obj_handlers :: "string list \<Rightarrow> string list \<Rightarrow> obj \<Rightarrow> frame" where
  "obj_handlers types names ob = map (\<lambda>n. (n, Method ob n)) (filter (\<lambda>n. n \<in> set types) names)"

text \<open>
  \<^verbatim>\<open>remove_handlers(obj)\<close>: the first frame from the top that holds one of the object's
  handlers loses all of them; if that leaves the frame empty, an empty frame is taken
  off the stack. No frame matching is not an error.
\<close>

definition frame_matches :: "frame \<Rightarrow> frame \<Rightarrow> bool" where
  "frame_matches hs f = list_ex (\<lambda>nh. nh \<in> set hs) f"

fun find_frame :: "frame \<Rightarrow> frame list \<Rightarrow> nat option" where
  "find_frame hs [] = None"
| "find_frame hs (f # fs) =
     (if frame_matches hs f then Some 0 else map_option Suc (find_frame hs fs))"

definition remove_from_stack :: "frame \<Rightarrow> frame list \<Rightarrow> frame list" where
  "remove_from_stack hs stack =
     (case find_frame hs stack of
        None \<Rightarrow> stack
      | Some i \<Rightarrow>
          (let f = filter (\<lambda>nh. nh \<notin> set hs) (stack ! i);
               stack' = stack[i := f]
           in if f = [] then remove1 [] stack' else stack'))"

definition handlers_of :: "world \<Rightarrow> obj \<Rightarrow> frame" where
  "handlers_of s ob =
     obj_handlers (event_types s) (obj_dir (views s) (other_attrs s) ob) ob"

definition remove_handlers :: "obj \<Rightarrow> world \<Rightarrow> world" where
  "remove_handlers ob s =
     emit (RemoveHandlers ob)
       (s\<lparr>event_stack := remove_from_stack (handlers_of s ob) (event_stack s)\<rparr>)"

text \<open>
  \<^verbatim>\<open>push_handlers(*objects)\<close>, as the constructor calls it: one new frame with the
  handlers of all the objects.
\<close>

definition push_handler_objects :: "obj list \<Rightarrow> world \<Rightarrow> world" where
  "push_handler_objects obs s =
     push_handlers (dict_of [] (concat (map (handlers_of s) obs))) s"

text \<open>
  The events a dispatch of \<open>name\<close> can reach on the stack, top frame first (a handler that
  returns a true value stops the walk; the window's own method comes after the stack).
\<close>

definition handlers_for :: "string \<Rightarrow> frame list \<Rightarrow> handler list" where
  "handlers_for name stack = concat (map (\<lambda>f. map snd (filter (\<lambda>nh. fst nh = name) f)) stack)"

section \<open>The scheduler\<close>

text \<open>
  The property \<^verbatim>\<open>FixedClock.accumulated\<close>: global time minus fixed time, a difference
  of floats.
\<close>

definition accumulated :: "world \<Rightarrow> rat" where
  "accumulated s = double (time (global_clock s) - fixed_time (fixed_clock s))"

text \<open>The loop condition of \<^verbatim>\<open>_dispatch_updates\<close>, as written in the source.\<close>

definition loop_cond :: "nat \<Rightarrow> world \<Rightarrow> bool" where
  "loop_cond fixed_count s =
     (accumulated s \<ge> fixed_rate s \<and>
      (case fixed_frame_cap s of None \<Rightarrow> True | Some cap \<Rightarrow> int fixed_count \<le> cap))"

text \<open>The loop body: tick the fixed clock, dispatch one fixed update.\<close>

definition loop_body :: "world \<Rightarrow> world" where
  "loop_body s =
     dispatch_event ''on_fixed_update'' (fixed_rate s)
       (s\<lparr>fixed_clock := FixedClock_tick (fixed_rate s) (fixed_clock s)\<rparr>)"

text \<open>
  The \<^verbatim>\<open>while\<close> loop. With no cap and a rate that is not positive it never ends, so it
  is a partial function: \<open>None\<close> stands for a run that does not return.
\<close>

partial_function (option) fixed_update_loop :: "nat \<Rightarrow> world \<Rightarrow> world option" where
  "fixed_update_loop fixed_count s =
     (if loop_cond fixed_count s
      then fixed_update_loop (fixed_count + 1) (loop_body s)
      else Some s)"

declare fixed_update_loop.simps [code]

text \<open>\<^verbatim>\<open>Window._dispatch_updates\<close>.\<close>

definition dispatch_updates :: "rat \<Rightarrow> world \<Rightarrow> world option" where
  "dispatch_updates dt s =
     (case fixed_update_loop 0 (s\<lparr>global_clock := Clock_tick dt (global_clock s)\<rparr>) of
        None \<Rightarrow> None
      | Some s' \<Rightarrow> Some (dispatch_event ''on_update'' dt s'))"

text \<open>The number of fixed updates a trace holds.\<close>

definition fixed_updates :: "action list \<Rightarrow> nat" where
  "fixed_updates tr = length (filter (\<lambda>a. case a of Dispatch n _ \<Rightarrow> n = ''on_fixed_update'' | _ \<Rightarrow> False) tr)"

section \<open>Construction, rates and closing\<close>

text \<open>
  Modelled from the spec: \<^verbatim>\<open>set_window\<close> and \<^verbatim>\<open>get_window\<close> of
  \<^verbatim>\<open>arcade.window_commands\<close>, not among the source files. The specification (section 9)
  speaks of a global mutable current-window singleton on which default View
  construction depends; the source assigns it the window in the constructor and
  \<^verbatim>\<open>None\<close> in \<^verbatim>\<open>close\<close>. \<open>set_window\<close> assigns the singleton. \<open>get_window\<close> gives the
  current window; the source treats its result as a window (the module declares
  \<^verbatim>\<open>_window: "Window"\<close>, and \<^verbatim>\<open>View.clear\<close> calls \<^verbatim>\<open>self.window.clear\<close> with no test for
  \<^verbatim>\<open>None\<close>), so with no current window it does not return: it raises a runtime error.
\<close>

definition set_window :: "wid option \<Rightarrow> world \<Rightarrow> world" where
  "set_window w s = s\<lparr>active_window := w\<rparr>"

definition get_window :: "world \<Rightarrow> error + wid" where
  "get_window s = (case active_window s of None \<Rightarrow> Inl RuntimeError | Some w \<Rightarrow> Inr w)"

text \<open>\<^verbatim>\<open>Window.set_update_rate\<close> and \<^verbatim>\<open>Window.set_draw_rate\<close>.\<close>

definition set_update_rate :: "rat \<Rightarrow> world \<Rightarrow> world" where
  "set_update_rate r s =
     schedule_interval (DispatchUpdates (self s)) r
       (unschedule (DispatchUpdates (self s)) (s\<lparr>update_rate := r\<rparr>))"

definition set_draw_rate :: "rat \<Rightarrow> world \<Rightarrow> world" where
  "set_draw_rate r s =
     schedule_interval RedrawWindows r (unschedule RedrawWindows (s\<lparr>draw_rate := r\<rparr>))"

text \<open>
  \<^verbatim>\<open>Window.close\<close>: the host closes the native window, the current-window singleton is
  cleared, and \<^verbatim>\<open>_dispatch_updates\<close> is unscheduled.
\<close>

definition close :: "world \<Rightarrow> world" where
  "close s = unschedule (DispatchUpdates (self s)) (set_window None (emit (Host ''close'') s))"

text \<open>
  The arguments of \<^verbatim>\<open>Window.__init__\<close> that the scheduler and the handler stack depend
  on, and what the constructor finds in its environment: whether the host can give an
  OpenGL context (if not, the constructor raises \<^verbatim>\<open>NoOpenGLException\<close>), whether it is
  headless, the event names the host's window class registers, and the views, the
  schedule, the current window and the attribute names that exist already.
\<close>

record window_args =
  arg_update_rate :: rat
  arg_draw_rate :: rat
  arg_fixed_rate :: rat
  arg_fixed_frame_cap :: "int option"
  arg_enable_polling :: bool

record host =
  context_available :: bool
  headless :: bool
  host_event_types :: "string list"
  host_views :: "vid \<Rightarrow> View"
  host_scheduled :: "(callback \<times> rat) list"
  host_active_window :: "wid option"
  host_attrs :: "obj \<Rightarrow> string list"

text \<open>
  \<^verbatim>\<open>Window.__init__\<close>, for the window object \<open>w\<close>: the three event types are registered,
  the clocks made, the rates and the cap stored, the update trigger scheduled, the
  window made current, the resize handler pushed and, with polling, the frame of the
  input-state handlers. No statement of it looks at the sign of \<^verbatim>\<open>fixed_rate\<close>.
\<close>

definition Window_init :: "wid \<Rightarrow> window_args \<Rightarrow> host \<Rightarrow> error + world" where
  "Window_init w a h =
     (if \<not> context_available h then Inl NoOpenGLException
      else
        (let s0 = \<lparr>self = w,
                   global_clock = Clock_init,
                   fixed_clock = FixedClock_init (arg_fixed_rate a),
                   update_rate = arg_update_rate a,
                   draw_rate = arg_draw_rate a,
                   fixed_rate = arg_fixed_rate a,
                   fixed_frame_cap = arg_fixed_frame_cap a,
                   current_view = None,
                   event_types = host_event_types h @ [''on_update'', ''on_action'', ''on_fixed_update''],
                   event_stack = [],
                   views = host_views h,
                   scheduled = host_scheduled h,
                   active_window = host_active_window h,
                   other_attrs = host_attrs h,
                   trace = []\<rparr>;
             s1 = set_update_rate (arg_update_rate a) s0;
             s2 = set_window (Some w) s1;
             s3 = push_handlers [(''on_resize'', Method (WindowObj w) ''_on_resize'')] s2;
             s4 = (if arg_enable_polling a
                   then (if headless h then push_handler_objects [KeyboardObj] s3
                         else push_handler_objects [KeyboardObj, MouseObj] s3)
                   else s3)
         in Inr s4))"

section \<open>Views\<close>

text \<open>
  \<^verbatim>\<open>View.__init__\<close>, for the new object \<open>v\<close> of a class that adds the attribute names
  \<open>cls_attrs\<close> to those of \<^verbatim>\<open>View\<close>: the back-reference is the argument, or what
  \<^verbatim>\<open>get_window\<close> gives when the argument is \<^verbatim>\<open>None\<close>; if \<^verbatim>\<open>get_window\<close> raises, so does
  the constructor, and no view is made.
\<close>

definition View_init :: "vid \<Rightarrow> string list \<Rightarrow> wid option \<Rightarrow> world \<Rightarrow> error + world" where
  "View_init v cls_attrs window_arg s =
     (case (case window_arg of None \<Rightarrow> get_window s | Some w \<Rightarrow> Inr w) of
        Inl e \<Rightarrow> Inl e
      | Inr w \<Rightarrow>
          Inr (s\<lparr>views := (views s)
                    (v := \<lparr>window = Some w,
                           key = None,
                           section_manager = None,
                           attrs = cls_attrs\<rparr>)\<rparr>))"

text \<open>
  A Python value handed to \<^verbatim>\<open>show_view\<close>: a reference to a View object, or a value of
  another type, of which only the type's name is kept.
\<close>

datatype pyval = ViewRef vid | NotAView string

text \<open>Lines 825-826: the view is bound to this window if it has no window yet.\<close>

definition bind_window :: "vid \<Rightarrow> world \<Rightarrow> world" where
  "bind_window v s =
     (if window (views s v) = None
      then emit (BindWindow v (self s))
             (s\<lparr>views := (views s)(v := (views s v)\<lparr>window := Some (self s)\<rparr>)\<rparr>)
      else s)"

text \<open>Lines 837-841: the handlers of the view shown before are removed.\<close>

definition remove_previous :: "world \<Rightarrow> world" where
  "remove_previous s =
     (case current_view s of
        None \<Rightarrow> s
      | Some c \<Rightarrow>
          (let s1 = emit (Call (ViewObj c) ''on_hide_view'') s;
               s2 = (if has_sections (views s1 c)
                     then remove_handlers (SectionManagerObj c) s1 else s1)
           in remove_handlers (ViewObj c) s2))"

text \<open>
  Lines 845-854: with sections, the manager's handlers for its managed events are
  pushed (if there are any) and the managed events are remembered; without, the set of
  managed events is empty. \<^verbatim>\<open>has_sections\<close> is true only of a view whose
  \<^verbatim>\<open>_section_manager\<close> is set, so the property \<^verbatim>\<open>section_manager\<close> returns that manager.
\<close>

definition getattr_sm :: "SectionManager \<Rightarrow> vid \<Rightarrow> string \<Rightarrow> handler" where
  "getattr_sm sm v name =
     (if name \<in> set (sm_attrs sm) then Method (SectionManagerObj v) name else PyNone)"

definition section_handlers :: "SectionManager \<Rightarrow> vid \<Rightarrow> frame" where
  "section_handlers sm v = dict_of [] (map (\<lambda>e. (e, getattr_sm sm v e)) (managed_events sm))"

definition section_manager_managed_events :: "View \<Rightarrow> string list" where
  "section_manager_managed_events vw =
     (case section_manager vw of
        None \<Rightarrow> []
      | Some sm \<Rightarrow> if sm_has_sections sm then managed_events sm else [])"

definition push_section_handlers :: "vid \<Rightarrow> world \<Rightarrow> world" where
  "push_section_handlers v s =
     (case section_manager (views s v) of
        None \<Rightarrow> s
      | Some sm \<Rightarrow>
          if sm_has_sections sm \<and> section_handlers sm v \<noteq> []
          then push_handlers (section_handlers sm v) s else s)"

text \<open>
  Lines 858-866: the view's own handlers, for every registered event type other than
  \<^verbatim>\<open>on_show\<close> that is not managed by the sections and that the view has.
\<close>

definition view_handlers :: "string list \<Rightarrow> View \<Rightarrow> vid \<Rightarrow> frame" where
  "view_handlers types vw v =
     dict_of []
       (map (\<lambda>e. (e, Method (ViewObj v) e))
          (filter (\<lambda>e. e \<noteq> ''on_show'' \<and> e \<notin> set (section_manager_managed_events vw)
                        \<and> hasattr_view vw e) types))"

definition push_view_handlers :: "vid \<Rightarrow> world \<Rightarrow> world" where
  "push_view_handlers v s =
     (if view_handlers (event_types s) (views s v) v \<noteq> []
      then push_handlers (view_handlers (event_types s) (views s v) v) s else s)"

text \<open>
  Lines 867-870: the hooks of the view that is now current, and of its section manager
  if it has sections. The hooks are user code; the model records the calls.
\<close>

definition invoke_shown :: "vid \<Rightarrow> world \<Rightarrow> world" where
  "invoke_shown v s =
     (let s1 = emit (Call (ViewObj v) ''on_show'') s;
          s2 = emit (Call (ViewObj v) ''on_show_view'') s1
      in if has_sections (views s2 v)
         then emit (Call (SectionManagerObj v) ''on_show_view'') s2 else s2)"

text \<open>
  \<^verbatim>\<open>Window.show_view\<close>. The result is the exception raised, if any, and the state the
  call leaves behind.
\<close>

definition set_current_view :: "vid option \<Rightarrow> world \<Rightarrow> world" where
  "set_current_view v s = emit (SetCurrentView v) (s\<lparr>current_view := v\<rparr>)"

definition show_view :: "pyval \<Rightarrow> world \<Rightarrow> error option \<times> world" where
  "show_view new_view s =
     (case new_view of
        NotAView ty \<Rightarrow> (Some (TypeError ty), s)
      | ViewRef v \<Rightarrow>
          (let s1 = emit (Host ''viewport'') (emit (Host ''screen.use'') s);
               s2 = bind_window v s1;
               s3 = remove_previous s2;
               s4 = set_current_view (Some v) s3;
               s5 = push_section_handlers v s4;
               s6 = push_view_handlers v s5
           in (None, invoke_shown v s6)))"

text \<open>\<^verbatim>\<open>Window.hide_view\<close>.\<close>

definition hide_view :: "world \<Rightarrow> world" where
  "hide_view s =
     (case current_view s of
        None \<Rightarrow> s
      | Some c \<Rightarrow>
          (let s1 = emit (Call (ViewObj c) ''on_hide_view'') s;
               s2 = (if has_sections (views s1 c)
                     then remove_handlers (SectionManagerObj c)
                            (emit (Call (SectionManagerObj c) ''on_hide_view'') s1)
                     else s1);
               s3 = remove_handlers (ViewObj c) s2
           in set_current_view None s3))"

section \<open>Properties of the handler stack\<close>

text \<open>
  The handlers the window has by default are methods of the window and of its
  input-state handlers. A stack is at window level when it holds no other handler.
\<close>

definition window_level_handler :: "handler \<Rightarrow> bool" where
  "window_level_handler h =
     (case h of
        Method (WindowObj _) _ \<Rightarrow> True
      | Method KeyboardObj _ \<Rightarrow> True
      | Method MouseObj _ \<Rightarrow> True
      | _ \<Rightarrow> False)"

definition window_level_only :: "frame list \<Rightarrow> bool" where
  "window_level_only stack =
     list_all (\<lambda>f. list_all (\<lambda>nh. window_level_handler (snd nh)) f) stack"

text \<open>
  The shape \<^verbatim>\<open>show_view\<close> gives the stack: on top of the window-level frames there is
  at most one frame of the current view's own handlers and, under it and only if the
  view has sections, at most one frame of its section manager's handlers. A frame is
  owned by an object when it is not empty and each of its entries is one of the
  handlers \<^verbatim>\<open>remove_handlers\<close> looks for.
\<close>

definition owned_frame :: "frame \<Rightarrow> frame \<Rightarrow> bool" where
  "owned_frame hs f = (f \<noteq> [] \<and> list_all (\<lambda>nh. nh \<in> set hs) f)"

definition strip_frame :: "frame \<Rightarrow> frame list \<Rightarrow> frame list" where
  "strip_frame hs stack =
     (case stack of [] \<Rightarrow> [] | f # r \<Rightarrow> if owned_frame hs f then r else stack)"

definition stack_inv :: "world \<Rightarrow> bool" where
  "stack_inv s =
     (case current_view s of
        None \<Rightarrow> window_level_only (event_stack s)
      | Some v \<Rightarrow>
          (let st1 = strip_frame (handlers_of s (ViewObj v)) (event_stack s);
               st2 = (if has_sections (views s v)
                      then strip_frame (handlers_of s (SectionManagerObj v)) st1
                      else st1)
           in window_level_only st2))"

text \<open>
  A section manager is well formed for a list of event types when every event it
  manages is a registered type and a method of the manager.
\<close>

definition sections_wf :: "string list \<Rightarrow> View \<Rightarrow> bool" where
  "sections_wf types vw =
     (case section_manager vw of
        None \<Rightarrow> True
      | Some sm \<Rightarrow>
          list_all (\<lambda>e. e \<in> set (sm_attrs sm) \<and> e \<in> set types) (managed_events sm))"

text \<open>
  The states a window can be in: the constructor makes one, and \<^verbatim>\<open>show_view\<close>,
  \<^verbatim>\<open>hide_view\<close>, a firing of the update trigger that returns, the two rate setters and
  \<^verbatim>\<open>close\<close> lead from one to the next. Views are shown only if their section manager,
  if any, is well formed. (A \<^verbatim>\<open>show_view\<close> that raises leaves the state as it is.)
\<close>

inductive reachable :: "world \<Rightarrow> bool" where
  constructed: "Window_init w a h = Inr s \<Longrightarrow> reachable s"
| shown: "reachable s \<Longrightarrow> sections_wf (event_types s) (views s v) \<Longrightarrow>
           reachable (snd (show_view (ViewRef v) s))"
| hidden: "reachable s \<Longrightarrow> reachable (hide_view s)"
| fired: "reachable s \<Longrightarrow> dispatch_updates dt s = Some s' \<Longrightarrow> reachable s'"
| update_rate_set: "reachable s \<Longrightarrow> reachable (set_update_rate r s)"
| draw_rate_set: "reachable s \<Longrightarrow> reachable (set_draw_rate r s)"
| closed: "reachable s \<Longrightarrow> reachable (close s)"

text \<open>Two states with the same handler stack, current view, views and event types.\<close>

definition same_handlers :: "world \<Rightarrow> world \<Rightarrow> bool" where
  "same_handlers s s' =
     (event_stack s' = event_stack s \<and> current_view s' = current_view s
      \<and> views s' = views s \<and> event_types s' = event_types s
      \<and> other_attrs s' = other_attrs s)"

text \<open>
  The frames a call \<^verbatim>\<open>show_view(v)\<close> pushes for a view \<open>vw\<close>: the section manager's, if
  the view has sections and the frame is not empty, and the view's own, if not empty.
\<close>

definition section_frames :: "View \<Rightarrow> vid \<Rightarrow> frame list" where
  "section_frames vw v =
     (case section_manager vw of
        None \<Rightarrow> []
      | Some sm \<Rightarrow>
          if sm_has_sections sm \<and> section_handlers sm v \<noteq> []
          then [section_handlers sm v] else [])"

definition view_frames :: "string list \<Rightarrow> View \<Rightarrow> vid \<Rightarrow> frame list" where
  "view_frames types vw v =
     (if view_handlers types vw v \<noteq> [] then [view_handlers types vw v] else [])"

text \<open>
  An order of actions: no frame is pushed after the first assignment of
  \<^verbatim>\<open>current_view\<close>.
\<close>

definition pushes_precede_assignment :: "action list \<Rightarrow> bool" where
  "pushes_precede_assignment tr =
     list_all (\<lambda>a. case a of PushHandlers _ \<Rightarrow> False | _ \<Rightarrow> True)
       (dropWhile (\<lambda>a. case a of SetCurrentView _ \<Rightarrow> False | _ \<Rightarrow> True) tr)"

section \<open>Example states\<close>

text \<open>
  Three views: one of the class \<^verbatim>\<open>View\<close> itself, one with a section manager that has
  sections and manages \<^verbatim>\<open>on_draw\<close>, and one whose section manager exists and has no
  section. The host registers five event names and has the two input-state handlers.
\<close>

definition plain_view :: View where
  "plain_view = \<lparr>window = None, key = None, section_manager = None, attrs = []\<rparr>"

definition sectioned_manager :: SectionManager where
  "sectioned_manager =
     \<lparr>sm_has_sections = True, managed_events = [''on_draw''],
      sm_attrs = [''on_draw'', ''on_show_view'', ''on_hide_view'']\<rparr>"

definition sectioned_view :: View where
  "sectioned_view =
     \<lparr>window = None, key = None, section_manager = Some sectioned_manager, attrs = []\<rparr>"

definition idle_manager :: SectionManager where
  "idle_manager =
     \<lparr>sm_has_sections = False, managed_events = [''on_draw''],
      sm_attrs = [''on_draw'', ''on_show_view'', ''on_hide_view'']\<rparr>"

definition idle_manager_view :: View where
  "idle_manager_view =
     \<lparr>window = None, key = None, section_manager = Some idle_manager, attrs = []\<rparr>"

definition example_host :: host where
  "example_host =
     \<lparr>context_available = True, headless = False,
      host_event_types =
        [''on_draw'', ''on_key_press'', ''on_mouse_press'', ''on_resize'', ''on_show''],
      host_views =
        (\<lambda>v. if v = 1 then sectioned_view else if v = 2 then idle_manager_view
             else plain_view),
      host_scheduled = [],
      host_active_window = None,
      host_attrs =
        (\<lambda>ob. case ob of
                KeyboardObj \<Rightarrow> [''on_key_press'', ''on_key_release'']
              | MouseObj \<Rightarrow> [''on_mouse_press'', ''on_mouse_release'']
              | _ \<Rightarrow> [])\<rparr>"

definition example_args :: "rat \<Rightarrow> int option \<Rightarrow> window_args" where
  "example_args r cap =
     \<lparr>arg_update_rate = 1 / 60, arg_draw_rate = 1 / 60, arg_fixed_rate = r,
      arg_fixed_frame_cap = cap, arg_enable_polling = True\<rparr>"

text \<open>
  The window 0 as its constructor leaves it in that environment, for a fixed rate and a
  cap (lemma \<open>Window_init_example\<close> below).
\<close>

definition example_window :: "rat \<Rightarrow> int option \<Rightarrow> world" where
  "example_window r cap =
     \<lparr>self = 0,
      global_clock = \<lparr>time = 0, delta_time = 0\<rparr>,
      fixed_clock = \<lparr>fixed_time = 0, rate = r\<rparr>,
      update_rate = 1 / 60, draw_rate = 1 / 60, fixed_rate = r,
      fixed_frame_cap = cap, current_view = None,
      event_types =
        [''on_draw'', ''on_key_press'', ''on_mouse_press'', ''on_resize'', ''on_show'',
         ''on_update'', ''on_action'', ''on_fixed_update''],
      event_stack =
        [[(''on_key_press'', Method KeyboardObj ''on_key_press''),
          (''on_mouse_press'', Method MouseObj ''on_mouse_press'')],
         [(''on_resize'', Method (WindowObj 0) ''_on_resize'')]],
      views = host_views example_host,
      scheduled = [(DispatchUpdates 0, 1 / 60)],
      active_window = Some 0,
      other_attrs = host_attrs example_host,
      trace =
        [PushHandlers [(''on_resize'', Method (WindowObj 0) ''_on_resize'')],
         PushHandlers
           [(''on_key_press'', Method KeyboardObj ''on_key_press''),
            (''on_mouse_press'', Method MouseObj ''on_mouse_press'')]]\<rparr>"

section \<open>The scheduler: lemmas\<close>

lemma Window_init_example:
  "Window_init 0 (example_args r cap) example_host = Inr (example_window r cap)"
  by (simp add: example_window_def Window_init_def example_args_def example_host_def
      Clock_init_def FixedClock_init_def set_update_rate_def set_window_def
      push_handlers_def push_handler_objects_def schedule_interval_def unschedule_def
      emit_def handlers_of_def obj_handlers_def obj_dir_def)

lemma loop_stop: "\<not> loop_cond n s \<Longrightarrow> fixed_update_loop n s = Some s"
  by (subst fixed_update_loop.simps) simp

lemma loop_step:
  "loop_cond n s \<Longrightarrow> fixed_update_loop n s = fixed_update_loop (Suc n) (loop_body s)"
  by (subst fixed_update_loop.simps) simp

lemma loop_body_fields [simp]:
  "fixed_frame_cap (loop_body s) = fixed_frame_cap s"
  "fixed_rate (loop_body s) = fixed_rate s"
  "global_clock (loop_body s) = global_clock s"
  "fixed_time (fixed_clock (loop_body s))
     = double (fixed_time (fixed_clock s) + fixed_rate s)"
  "trace (loop_body s) = trace s @ [Dispatch ''on_fixed_update'' (fixed_rate s)]"
  by (simp_all add: loop_body_def dispatch_event_def emit_def FixedClock_tick_def)

lemma fixed_updates_append [simp]:
  "fixed_updates (tr @ [Dispatch ''on_fixed_update'' r]) = Suc (fixed_updates tr)"
  by (simp add: fixed_updates_def)

text \<open>
  With a cap the loop returns, after at most one fixed update more than the cap: the
  test \<^verbatim>\<open>fixed_count <= cap\<close> lets the counts \<open>0 .. cap\<close> through.
\<close>

lemma capped_loop_returns:
  "fixed_frame_cap s = Some c \<Longrightarrow>
   \<exists>s'. fixed_update_loop n s = Some s' \<and>
        fixed_updates (trace s') \<le> fixed_updates (trace s) + nat (c + 1 - int n)"
proof (induction "nat (c + 1 - int n)" arbitrary: n s)
  case 0
  then have "\<not> loop_cond n s" by (simp add: loop_cond_def)
  then show ?case by (simp add: loop_stop)
next
  case (Suc k)
  show ?case
  proof (cases "loop_cond n s")
    case False
    then show ?thesis by (simp add: loop_stop)
  next
    case True
    have k: "k = nat (c + 1 - int (Suc n))" using Suc.hyps(2) by simp
    have cap: "fixed_frame_cap (loop_body s) = Some c" using Suc.prems by simp
    from Suc.hyps(1)[OF k cap] obtain s' where
      s': "fixed_update_loop (Suc n) (loop_body s) = Some s'"
          "fixed_updates (trace s')
             \<le> fixed_updates (trace (loop_body s)) + nat (c + 1 - int (Suc n))"
      by blast
    show ?thesis using s' True Suc.hyps(2) by (simp add: loop_step)
  qed
qed

lemma capped_firing_returns:
  assumes "fixed_frame_cap s = Some c"
  shows "\<exists>s'. dispatch_updates dt s = Some s'
           \<and> fixed_updates (trace s') \<le> fixed_updates (trace s) + nat (c + 1)"
proof -
  let ?s0 = "s\<lparr>global_clock := Clock_tick dt (global_clock s)\<rparr>"
  have "fixed_frame_cap ?s0 = Some c" using assms by simp
  from capped_loop_returns [OF this, of 0] obtain s1 where
    s1: "fixed_update_loop 0 ?s0 = Some s1"
        "fixed_updates (trace s1) \<le> fixed_updates (trace s) + nat (c + 1)"
    by auto
  then show ?thesis
    by (simp add: dispatch_updates_def dispatch_event_def emit_def fixed_updates_def)
qed

text \<open>Rounding keeps zero and the sign.\<close>

lemma double_zero [simp]: "double 0 = 0"
  by (simp add: double_def)

lemma round_half_even_nonneg: "0 \<le> x \<Longrightarrow> 0 \<le> round_half_even x"
  by (simp add: round_half_even_def Let_def)

lemma double_nonneg: "0 \<le> x \<Longrightarrow> 0 \<le> double x"
  by (simp add: double_def Let_def round_half_even_nonneg sgn_if)

lemma double_nonpos:
  assumes "x \<le> 0"
  shows "double x \<le> 0"
proof (cases "x = 0")
  case True
  then show ?thesis by simp
next
  case False
  let ?e = "binade \<bar>x\<bar> - 52"
  have "0 \<le> \<bar>x\<bar> / 2 powi ?e" by simp
  then have "0 \<le> rat_of_int (round_half_even (\<bar>x\<bar> / 2 powi ?e)) * 2 powi ?e"
    using round_half_even_nonneg by simp
  moreover have "double x = - (rat_of_int (round_half_even (\<bar>x\<bar> / 2 powi ?e)) * 2 powi ?e)"
    using assms False by (simp add: double_def Let_def sgn_if)
  ultimately show ?thesis by simp
qed

text \<open>
  With no cap and a rate that is not positive, the loop never returns once the global
  time is not negative and the fixed time not positive: the fixed time only goes down,
  so the accumulated time stays at or above zero, which is at or above the rate.
\<close>

lemma uncapped_nonpositive_rate_never_returns:
  assumes "fixed_frame_cap s = None" and "fixed_rate s \<le> 0"
    and "0 \<le> time (global_clock s)" and "fixed_time (fixed_clock s) \<le> 0"
  shows "fixed_update_loop n s = None"
proof -
  have "\<forall>n s. fixed_frame_cap s = None \<longrightarrow> fixed_rate s \<le> 0 \<longrightarrow>
          0 \<le> time (global_clock s) \<longrightarrow> fixed_time (fixed_clock s) \<le> 0 \<longrightarrow>
          fixed_update_loop n s = None"
  proof (induction rule: fixed_update_loop.fixp_induct)
    case 1
    then show ?case by (rule ccpo.admissibleI) (auto simp: fun_lub_def flat_lub_def)
  next
    case 2
    then show ?case by simp
  next
    case (3 f)
    show ?case
    proof (intro allI impI)
      fix n :: nat and s :: world
      assume h: "fixed_frame_cap s = None" "fixed_rate s \<le> 0"
        "0 \<le> time (global_clock s)" "fixed_time (fixed_clock s) \<le> 0"
      have "0 \<le> accumulated s" using h(3,4) by (simp add: accumulated_def double_nonneg)
      then have c: "loop_cond n s" using h(1,2) by (simp add: loop_cond_def)
      have "fixed_time (fixed_clock (loop_body s)) \<le> 0"
        using h(2,4) by (simp add: double_nonpos)
      then have "f (n + 1) (loop_body s) = None" using 3 h by simp
      then show "(if loop_cond n s then f (n + 1) (loop_body s) else Some s) = None"
        using c by simp
    qed
  qed
  with assms show ?thesis by blast
qed

text \<open>The doubles of the claims: what the sums and differences of a run round to.\<close>

lemma double_sixtieth:
  "double (1 / 60) = 4803839602528529 / 288230376151711744"
  "double (1 / 30) = 4803839602528529 / 144115188075855872"
  "double (3 / 60) = 3602879701896397 / 72057594037927936"
  by code_simp+

lemma first_firing_arithmetic:
  "double (double (1 / 30)) = double (1 / 30)"
  "double (double (1 / 60)) = double (1 / 60)"
  "double (1 / 60) \<le> double (1 / 30)"
  "double (double (1 / 30) - double (1 / 60)) = double (1 / 60)"
  "double (double (1 / 60) + double (1 / 60)) = double (1 / 30)"
  "double (2 * double (1 / 60)) = double (1 / 30)"
  "0 < double (1 / 60)"
  by code_simp+

section \<open>The scheduler: claims\<close>

text \<open>
  Claim C1 says that with \<^verbatim>\<open>fixed_frame_cap = n\<close> one firing of the update trigger
  dispatches at most \<open>n\<close> fixed updates. The source stops at \<open>n + 1\<close>: for the window
  built with a cap of 1 and a fixed rate of 1/60, a firing with a frame delta of 3/60
  returns after 2 fixed updates, one more than the cap.
\<close>

theorem capped_firing_exceeds_cap:
  "map_option (\<lambda>s'. fixed_updates (trace s'))
     (dispatch_updates (double (3 / 60)) (example_window (double (1 / 60)) (Some 1)))
     = Some 2"
  by code_simp

text \<open>
  Claim C2 says that with a cap of 1 and a fixed rate of 1/60 a firing with delta 3/60
  dispatches exactly 1 fixed update and keeps 2/60, and that the next firing with delta
  0 dispatches 1 more. In the source the first firing dispatches 2 fixed updates and
  keeps the double next above 1/60; the second firing, with delta 0, dispatches 1 more
  (3 in all) and leaves the accumulated time at 0. The time kept is carried over, as the
  claim says; the counts differ by the extra step of the first firing.
\<close>

theorem capped_catch_up_across_frames:
  "map_option (\<lambda>s'. (fixed_updates (trace s'), accumulated s'))
     (dispatch_updates (double (3 / 60)) (example_window (double (1 / 60)) (Some 1)))
     = Some (2, 2401919801264265 / 144115188075855872)
   \<and> map_option (\<lambda>s'. (fixed_updates (trace s'), accumulated s'))
       (Option.bind
          (dispatch_updates (double (3 / 60)) (example_window (double (1 / 60)) (Some 1)))
          (dispatch_updates 0)) = Some (3, 0)"
  by code_simp

text \<open>
  Claim C3, as amended. The claim speaks of any firing with a frame delta of 1/30; it
  holds of the first. For a window as its constructor leaves it, with no cap and a fixed
  rate of 1/60, the firing with a frame delta of 1/30 returns; it dispatches exactly two
  fixed updates, each carrying 1/60, then the one variable update carrying 1/30, and
  leaves the accumulated time at exactly 0.
\<close>

theorem first_firing_two_fixed_then_update:
  assumes "Window_init w a h = Inr s"
    and "arg_fixed_frame_cap a = None" and "arg_fixed_rate a = double (1 / 60)"
  shows "\<exists>s'. dispatch_updates (double (1 / 30)) s = Some s'
           \<and> trace s' = trace s @ [Dispatch ''on_fixed_update'' (double (1 / 60)),
                                   Dispatch ''on_fixed_update'' (double (1 / 60)),
                                   Dispatch ''on_update'' (double (1 / 30))]
           \<and> accumulated s' = 0"
proof -
  have init: "fixed_frame_cap s = None" "fixed_rate s = double (1 / 60)"
    "time (global_clock s) = 0" "fixed_time (fixed_clock s) = 0"
    using assms
    by (auto simp: Window_init_def Let_def push_handler_objects_def push_handlers_def
        set_window_def set_update_rate_def schedule_interval_def unschedule_def emit_def
        Clock_init_def FixedClock_init_def split: if_splits)
  let ?s0 = "s\<lparr>global_clock := Clock_tick (double (1 / 30)) (global_clock s)\<rparr>"
  have g: "time (global_clock ?s0) = double (1 / 30)"
    using init(3) by (simp add: Clock_tick_def first_firing_arithmetic)
  have f0: "fixed_rate ?s0 = double (1 / 60)" "fixed_frame_cap ?s0 = None"
    "trace ?s0 = trace s" "fixed_time (fixed_clock ?s0) = 0"
    using init by simp_all
  have c0: "loop_cond 0 ?s0"
    using g f0 by (simp add: loop_cond_def accumulated_def first_firing_arithmetic)
  let ?s1 = "loop_body ?s0"
  have t1: "fixed_time (fixed_clock ?s1) = double (1 / 60)"
    using f0 by (simp add: first_firing_arithmetic)
  have g1: "time (global_clock ?s1) = double (1 / 30)" using g by simp
  have c1: "loop_cond 1 ?s1"
    using g1 t1 f0 by (simp add: loop_cond_def accumulated_def first_firing_arithmetic)
  let ?s2 = "loop_body ?s1"
  have t2: "fixed_time (fixed_clock ?s2) = double (1 / 30)"
    using t1 f0 by (simp add: first_firing_arithmetic)
  have g2: "time (global_clock ?s2) = double (1 / 30)" using g1 by simp
  have a2: "accumulated ?s2 = 0" using g2 t2 by (simp add: accumulated_def)
  have c2: "\<not> loop_cond 2 ?s2"
    using a2 f0 first_firing_arithmetic(7) by (simp add: loop_cond_def)
  have "fixed_update_loop 0 ?s0 = fixed_update_loop 1 ?s1" using c0 by (simp add: loop_step)
  also have "\<dots> = fixed_update_loop 2 ?s2"
    using c1 loop_step [of 1 ?s1] by (simp add: numeral_2_eq_2)
  also have "\<dots> = Some ?s2" using c2 by (rule loop_stop)
  finally have run: "dispatch_updates (double (1 / 30)) s
                       = Some (dispatch_event ''on_update'' (double (1 / 30)) ?s2)"
    by (simp add: dispatch_updates_def)
  have tr: "trace (dispatch_event ''on_update'' (double (1 / 30)) ?s2)
              = trace s @ [Dispatch ''on_fixed_update'' (double (1 / 60)),
                           Dispatch ''on_fixed_update'' (double (1 / 60)),
                           Dispatch ''on_update'' (double (1 / 30))]"
    using f0 by (simp add: dispatch_event_def emit_def)
  have acc: "accumulated (dispatch_event ''on_update'' (double (1 / 30)) ?s2) = 0"
    using a2 by (simp add: dispatch_event_def emit_def accumulated_def)
  show ?thesis using run tr acc by blast
qed

text \<open>The theorem for the window 0 of the examples.\<close>

theorem first_firing_two_fixed_then_update_witness:
  "Window_init 0 (example_args (double (1 / 60)) None) example_host
     = Inr (example_window (double (1 / 60)) None)
   \<and> (\<exists>s'. dispatch_updates (double (1 / 30)) (example_window (double (1 / 60)) None)
              = Some s'
           \<and> trace s' = trace (example_window (double (1 / 60)) None)
                          @ [Dispatch ''on_fixed_update'' (double (1 / 60)),
                             Dispatch ''on_fixed_update'' (double (1 / 60)),
                             Dispatch ''on_update'' (double (1 / 30))]
           \<and> accumulated s' = 0)"
proof -
  have h: "Window_init 0 (example_args (double (1 / 60)) None) example_host
             = Inr (example_window (double (1 / 60)) None)"
    by (rule Window_init_example)
  have a: "arg_fixed_frame_cap (example_args (double (1 / 60)) None) = None"
    "arg_fixed_rate (example_args (double (1 / 60)) None) = double (1 / 60)"
    by (simp_all add: example_args_def)
  from first_firing_two_fixed_then_update [OF h a] h show ?thesis by blast
qed

text \<open>
  Claim C3 as stated fails on a later firing: on the same window the second firing with
  a frame delta of 1/30 dispatches one fixed update (3 after the 2 of the first). The
  fixed time after the third step, a sum of three steps, is rounded up, so what is then
  accumulated, just under 1/60, does not reach the fixed rate and is kept.
\<close>

theorem second_firing_one_fixed_update_counterexample:
  "map_option (\<lambda>s'. (fixed_updates (trace s'), accumulated s'))
     (dispatch_updates (double (1 / 30)) (example_window (double (1 / 60)) None))
     = Some (2, 0)
   \<and> map_option (\<lambda>s'. (fixed_updates (trace s'), accumulated s'))
       (Option.bind
          (dispatch_updates (double (1 / 30)) (example_window (double (1 / 60)) None))
          (dispatch_updates (double (1 / 30))))
       = Some (3, 300239975158033 / 18014398509481984)"
  by code_simp

section \<open>The handler stack: lemmas\<close>

lemma find_frame_less: "find_frame hs st = Some i \<Longrightarrow> i < length st"
  by (induction st arbitrary: i) (auto split: if_splits)

lemma owned_frame_matches: "owned_frame hs f \<Longrightarrow> frame_matches hs f"
  by (cases f) (auto simp: owned_frame_def frame_matches_def)

lemma owned_frame_filter: "owned_frame hs f \<Longrightarrow> filter (\<lambda>nh. nh \<notin> set hs) f = []"
  by (auto simp: owned_frame_def list_all_iff filter_empty_conv)

lemma remove_from_stack_top: "owned_frame hs f \<Longrightarrow> remove_from_stack hs (f # st) = st"
  by (simp add: remove_from_stack_def owned_frame_matches owned_frame_filter)

lemma remove_from_stack_second:
  "\<not> frame_matches hs g \<Longrightarrow> g \<noteq> [] \<Longrightarrow> owned_frame hs f \<Longrightarrow>
   remove_from_stack hs (g # f # st) = g # st"
  by (simp add: remove_from_stack_def owned_frame_matches owned_frame_filter)

lemma remove_from_stack_none: "find_frame hs st = None \<Longrightarrow> remove_from_stack hs st = st"
  by (simp add: remove_from_stack_def)

lemma in_obj_handlers: "nh \<in> set (obj_handlers t names ob) \<Longrightarrow> snd nh = Method ob (fst nh)"
  by (auto simp: obj_handlers_def)

lemma window_level_no_match:
  assumes "\<And>nh. nh \<in> set hs \<Longrightarrow> \<not> window_level_handler (snd nh)"
    and "list_all (\<lambda>nh. window_level_handler (snd nh)) f"
  shows "\<not> frame_matches hs f"
  using assms by (auto simp: frame_matches_def list_all_iff list_ex_iff)

lemma window_level_find_none:
  assumes "\<And>nh. nh \<in> set hs \<Longrightarrow> \<not> window_level_handler (snd nh)"
    and "window_level_only st"
  shows "find_frame hs st = None"
  using assms(2)
proof (induction st)
  case Nil
  then show ?case by simp
next
  case (Cons f st)
  then show ?case
    using window_level_no_match [of hs f] assms(1) by (simp add: window_level_only_def)
qed

lemma view_handler_not_window_level:
  "nh \<in> set (handlers_of s (ViewObj v)) \<Longrightarrow> \<not> window_level_handler (snd nh)"
  by (auto simp: handlers_of_def window_level_handler_def dest: in_obj_handlers)

lemma sm_handler_not_window_level:
  "nh \<in> set (handlers_of s (SectionManagerObj v)) \<Longrightarrow> \<not> window_level_handler (snd nh)"
  by (auto simp: handlers_of_def window_level_handler_def dest: in_obj_handlers)

lemma view_frame_no_sm_match:
  "owned_frame (handlers_of s (ViewObj v)) f \<Longrightarrow> \<not> frame_matches (handlers_of s' (SectionManagerObj v')) f"
  by (auto simp: owned_frame_def frame_matches_def list_all_iff list_ex_iff handlers_of_def
      dest!: in_obj_handlers)

lemma sm_frame_no_view_match:
  "owned_frame (handlers_of s (SectionManagerObj v)) f \<Longrightarrow> \<not> frame_matches (handlers_of s' (ViewObj v')) f"
  by (auto simp: owned_frame_def frame_matches_def list_all_iff list_ex_iff handlers_of_def
      dest!: in_obj_handlers)

lemma remove_view_strip:
  assumes "window_level_only (strip_frame (handlers_of s (ViewObj v)) st)"
  shows "remove_from_stack (handlers_of s (ViewObj v)) st = strip_frame (handlers_of s (ViewObj v)) st"
proof (cases st)
  case Nil
  then show ?thesis by (simp add: strip_frame_def remove_from_stack_def)
next
  case (Cons f r)
  show ?thesis
  proof (cases "owned_frame (handlers_of s (ViewObj v)) f")
    case True
    then show ?thesis using Cons by (simp add: strip_frame_def remove_from_stack_top)
  next
    case False
    then have "window_level_only st" using assms Cons by (simp add: strip_frame_def)
    then have "find_frame (handlers_of s (ViewObj v)) st = None"
      using window_level_find_none view_handler_not_window_level by blast
    then show ?thesis using Cons False by (simp add: strip_frame_def remove_from_stack_none)
  qed
qed

lemma remove_both_strip:
  assumes "window_level_only (strip_frame (handlers_of s (SectionManagerObj v))
             (strip_frame (handlers_of s (ViewObj v)) st))"
  shows "remove_from_stack (handlers_of s (ViewObj v))
           (remove_from_stack (handlers_of s (SectionManagerObj v)) st)
         = strip_frame (handlers_of s (SectionManagerObj v))
             (strip_frame (handlers_of s (ViewObj v)) st)"
proof -
  let ?hv = "handlers_of s (ViewObj v)" and ?hs = "handlers_of s (SectionManagerObj v)"
  have base_v: "\<And>b. window_level_only b \<Longrightarrow> find_frame ?hv b = None"
    using window_level_find_none view_handler_not_window_level by blast
  have base_s: "\<And>b. window_level_only b \<Longrightarrow> find_frame ?hs b = None"
    using window_level_find_none sm_handler_not_window_level by blast
  have sm_only: "remove_from_stack ?hv (remove_from_stack ?hs r) = strip_frame ?hs r"
    if "window_level_only (strip_frame ?hs r)" for r
  proof (cases r)
    case Nil
    then show ?thesis by (simp add: strip_frame_def remove_from_stack_def)
  next
    case (Cons g r')
    show ?thesis
    proof (cases "owned_frame ?hs g")
      case True
      then show ?thesis using Cons that base_v
        by (simp add: strip_frame_def remove_from_stack_top remove_from_stack_none)
    next
      case False
      then have eq: "strip_frame ?hs r = r" using Cons by (simp add: strip_frame_def)
      then have "window_level_only r" using that by simp
      then have "find_frame ?hs r = None" "find_frame ?hv r = None"
        using base_v base_s by blast+
      then show ?thesis using eq by (simp add: remove_from_stack_none)
    qed
  qed
  show ?thesis
  proof (cases st)
    case Nil
    then show ?thesis by (simp add: strip_frame_def remove_from_stack_def)
  next
    case (Cons f r)
    show ?thesis
    proof (cases "owned_frame ?hv f")
      case False
      then have "strip_frame ?hv st = st" using Cons by (simp add: strip_frame_def)
      then show ?thesis using sm_only [of st] assms by simp
    next
      case True
      then have st1: "strip_frame ?hv st = r" using Cons by (simp add: strip_frame_def)
      have nm: "\<not> frame_matches ?hs f" using True view_frame_no_sm_match by blast
      have ne: "f \<noteq> []" using True by (simp add: owned_frame_def)
      show ?thesis
      proof (cases "strip_frame ?hs r = r")
        case False
        then obtain g r' where r: "r = g # r'" and og: "owned_frame ?hs g"
          by (auto simp: strip_frame_def split: list.splits if_splits)
        have "remove_from_stack ?hs st = f # r'"
          using Cons r nm ne og by (simp add: remove_from_stack_second)
        moreover have "remove_from_stack ?hv (f # r') = r'"
          using True by (rule remove_from_stack_top)
        moreover have "strip_frame ?hs r = r'" using r og by (simp add: strip_frame_def)
        ultimately show ?thesis using st1 by simp
      next
        case eq: True
        then have "window_level_only r" using assms st1 by simp
        then have "find_frame ?hs r = None" by (rule base_s)
        then have "find_frame ?hs st = None" using Cons nm by simp
        then have "remove_from_stack ?hs st = st" by (rule remove_from_stack_none)
        moreover have "remove_from_stack ?hv st = r"
          using Cons True by (simp add: remove_from_stack_top)
        ultimately show ?thesis using st1 eq by simp
      qed
    qed
  qed
qed

lemma dict_set_map:
  "dict_set (map (\<lambda>k. (k, g k)) ks) k (g k)
     = map (\<lambda>k. (k, g k)) (if k \<in> set ks then ks else ks @ [k])"
  by (induction ks) auto

lemma dict_of_map:
  "\<exists>ks'. dict_of (map (\<lambda>k. (k, g k)) ks) (map (\<lambda>k. (k, g k)) es) = map (\<lambda>k. (k, g k)) ks'
         \<and> set ks' = set ks \<union> set es \<and> (distinct ks \<longrightarrow> distinct ks')"
proof (induction es arbitrary: ks)
  case Nil
  then show ?case by auto
next
  case (Cons e es)
  let ?ks = "if e \<in> set ks then ks else ks @ [e]"
  from Cons [of ?ks] obtain ks' where
    "dict_of (map (\<lambda>k. (k, g k)) ?ks) (map (\<lambda>k. (k, g k)) es) = map (\<lambda>k. (k, g k)) ks'"
    "set ks' = set ?ks \<union> set es" "distinct ?ks \<longrightarrow> distinct ks'"
    by blast
  then show ?case by (auto simp: dict_set_map split: if_splits)
qed

lemma dict_of_keys:
  obtains ks where "dict_of [] (map (\<lambda>k. (k, g k)) es) = map (\<lambda>k. (k, g k)) ks"
    and "set ks = set es" and "distinct ks"
  using dict_of_map [of g "[]" es] by auto

lemma set_dict_of: "set (dict_of [] (map (\<lambda>k. (k, g k)) es)) = (\<lambda>k. (k, g k)) ` set es"
  by (rule dict_of_keys [of g es]) auto

lemma dict_of_empty_iff: "dict_of [] (map (\<lambda>k. (k, g k)) es) = [] \<longleftrightarrow> es = []"
  by (rule dict_of_keys [of g es]) auto

lemma filter_key_distinct:
  "distinct ks \<Longrightarrow> filter (\<lambda>nh. fst nh = e) (map (\<lambda>k. (k, g k)) ks) = (if e \<in> set ks then [(e, g e)] else [])"
  by (induction ks) auto

lemma dict_of_lookup:
  "map snd (filter (\<lambda>nh. fst nh = e) (dict_of [] (map (\<lambda>k. (k, g k)) es)))
     = (if e \<in> set es then [g e] else [])"
  by (rule dict_of_keys [of g es]) (simp add: filter_key_distinct)

section \<open>The view protocol: lemmas\<close>

lemma emit_fields [simp]:
  "event_stack (emit a s) = event_stack s"
  "views (emit a s) = views s"
  "current_view (emit a s) = current_view s"
  "event_types (emit a s) = event_types s"
  "other_attrs (emit a s) = other_attrs s"
  "self (emit a s) = self s"
  "scheduled (emit a s) = scheduled s"
  "active_window (emit a s) = active_window s"
  "trace (emit a s) = trace s @ [a]"
  "handlers_of (emit a s) = handlers_of s"
  by (simp_all add: emit_def handlers_of_def fun_eq_iff)

lemma remove_handlers_fields [simp]:
  "event_stack (remove_handlers ob s) = remove_from_stack (handlers_of s ob) (event_stack s)"
  "views (remove_handlers ob s) = views s"
  "current_view (remove_handlers ob s) = current_view s"
  "event_types (remove_handlers ob s) = event_types s"
  "other_attrs (remove_handlers ob s) = other_attrs s"
  "self (remove_handlers ob s) = self s"
  "trace (remove_handlers ob s) = trace s @ [RemoveHandlers ob]"
  "handlers_of (remove_handlers ob s) = handlers_of s"
  by (simp_all add: remove_handlers_def handlers_of_def fun_eq_iff)

lemma push_handlers_fields [simp]:
  "event_stack (push_handlers f s) = f # event_stack s"
  "views (push_handlers f s) = views s"
  "current_view (push_handlers f s) = current_view s"
  "event_types (push_handlers f s) = event_types s"
  "other_attrs (push_handlers f s) = other_attrs s"
  "self (push_handlers f s) = self s"
  "trace (push_handlers f s) = trace s @ [PushHandlers f]"
  "handlers_of (push_handlers f s) = handlers_of s"
  by (simp_all add: push_handlers_def handlers_of_def fun_eq_iff)

lemma set_current_view_fields [simp]:
  "event_stack (set_current_view c s) = event_stack s"
  "views (set_current_view c s) = views s"
  "current_view (set_current_view c s) = c"
  "event_types (set_current_view c s) = event_types s"
  "other_attrs (set_current_view c s) = other_attrs s"
  "self (set_current_view c s) = self s"
  "trace (set_current_view c s) = trace s @ [SetCurrentView c]"
  "handlers_of (set_current_view c s) = handlers_of s"
  by (simp_all add: set_current_view_def handlers_of_def fun_eq_iff)

lemma bind_window_fields [simp]:
  "event_stack (bind_window v s) = event_stack s"
  "current_view (bind_window v s) = current_view s"
  "event_types (bind_window v s) = event_types s"
  "other_attrs (bind_window v s) = other_attrs s"
  "self (bind_window v s) = self s"
  "section_manager (views (bind_window v s) c) = section_manager (views s c)"
  "attrs (views (bind_window v s) c) = attrs (views s c)"
  "trace (bind_window v s)
     = trace s @ (if window (views s v) = None then [BindWindow v (self s)] else [])"
  by (simp_all add: bind_window_def)

lemma bind_window_derived [simp]:
  "has_sections (views (bind_window v s) c) = has_sections (views s c)"
  "handlers_of (bind_window v s) = handlers_of s"
  "section_manager_managed_events (views (bind_window v s) c)
     = section_manager_managed_events (views s c)"
  "view_handlers t (views (bind_window v s) c) c' = view_handlers t (views s c) c'"
  "hasattr_view (views (bind_window v s) c) n = hasattr_view (views s c) n"
  by (simp_all add: has_sections_def handlers_of_def obj_dir_def fun_eq_iff
      section_manager_managed_events_def view_handlers_def hasattr_view_def
      split: obj.splits)

lemma window_level_handlers_for:
  "window_level_only st \<Longrightarrow> list_all window_level_handler (handlers_for name st)"
  by (auto simp: window_level_only_def handlers_for_def list_all_iff)

text \<open>The stack after the removals that \<open>hide_view\<close> and \<open>show_view\<close> make.\<close>

lemma stack_inv_removed:
  assumes "stack_inv s" and "current_view s = Some c"
  shows "window_level_only
           (remove_from_stack (handlers_of s (ViewObj c))
              (if has_sections (views s c)
               then remove_from_stack (handlers_of s (SectionManagerObj c)) (event_stack s)
               else event_stack s))"
proof (cases "has_sections (views s c)")
  case True
  then have "window_level_only (strip_frame (handlers_of s (SectionManagerObj c))
               (strip_frame (handlers_of s (ViewObj c)) (event_stack s)))"
    using assms by (simp add: stack_inv_def)
  then show ?thesis using True by (simp add: remove_both_strip)
next
  case False
  then have "window_level_only (strip_frame (handlers_of s (ViewObj c)) (event_stack s))"
    using assms by (simp add: stack_inv_def)
  then show ?thesis using False by (simp add: remove_view_strip)
qed

lemma hide_view_None: "current_view s = None \<Longrightarrow> hide_view s = s"
  by (simp add: hide_view_def)

lemma hide_view_Some:
  assumes "current_view s = Some c"
  shows "current_view (hide_view s) = None"
    and "event_stack (hide_view s)
           = remove_from_stack (handlers_of s (ViewObj c))
              (if has_sections (views s c)
               then remove_from_stack (handlers_of s (SectionManagerObj c)) (event_stack s)
               else event_stack s)"
    and "trace (hide_view s)
           = trace s @ [Call (ViewObj c) ''on_hide_view'']
               @ (if has_sections (views s c)
                  then [Call (SectionManagerObj c) ''on_hide_view'',
                        RemoveHandlers (SectionManagerObj c)]
                  else [])
               @ [RemoveHandlers (ViewObj c), SetCurrentView None]"
  using assms by (simp_all add: hide_view_def Let_def)

lemma remove_previous_fields [simp]:
  "current_view (remove_previous s) = current_view s"
  "views (remove_previous s) = views s"
  "event_types (remove_previous s) = event_types s"
  "other_attrs (remove_previous s) = other_attrs s"
  "self (remove_previous s) = self s"
  "handlers_of (remove_previous s) = handlers_of s"
  by (simp_all add: remove_previous_def Let_def split: option.splits)

lemma remove_previous_stack:
  "event_stack (remove_previous s)
     = (case current_view s of
          None \<Rightarrow> event_stack s
        | Some c \<Rightarrow>
            remove_from_stack (handlers_of s (ViewObj c))
              (if has_sections (views s c)
               then remove_from_stack (handlers_of s (SectionManagerObj c)) (event_stack s)
               else event_stack s))"
  by (simp add: remove_previous_def Let_def split: option.splits)

lemma remove_previous_trace:
  "trace (remove_previous s)
     = trace s
         @ (case current_view s of
              None \<Rightarrow> []
            | Some c \<Rightarrow>
                Call (ViewObj c) ''on_hide_view''
                  # (if has_sections (views s c) then [RemoveHandlers (SectionManagerObj c)]
                     else [])
                  @ [RemoveHandlers (ViewObj c)])"
  by (simp add: remove_previous_def Let_def split: option.splits)

lemma remove_previous_window_level:
  "stack_inv s \<Longrightarrow> window_level_only (event_stack (remove_previous s))"
  by (cases "current_view s")
     (simp_all add: remove_previous_stack stack_inv_def stack_inv_removed [unfolded stack_inv_def])

lemma push_section_handlers_fields [simp]:
  "current_view (push_section_handlers v s) = current_view s"
  "views (push_section_handlers v s) = views s"
  "event_types (push_section_handlers v s) = event_types s"
  "other_attrs (push_section_handlers v s) = other_attrs s"
  "self (push_section_handlers v s) = self s"
  "handlers_of (push_section_handlers v s) = handlers_of s"
  "event_stack (push_section_handlers v s) = section_frames (views s v) v @ event_stack s"
  "trace (push_section_handlers v s)
     = trace s @ map PushHandlers (section_frames (views s v) v)"
  by (simp_all add: push_section_handlers_def section_frames_def split: option.splits)

lemma push_view_handlers_fields [simp]:
  "current_view (push_view_handlers v s) = current_view s"
  "views (push_view_handlers v s) = views s"
  "event_types (push_view_handlers v s) = event_types s"
  "other_attrs (push_view_handlers v s) = other_attrs s"
  "self (push_view_handlers v s) = self s"
  "handlers_of (push_view_handlers v s) = handlers_of s"
  "event_stack (push_view_handlers v s)
     = view_frames (event_types s) (views s v) v @ event_stack s"
  "trace (push_view_handlers v s)
     = trace s @ map PushHandlers (view_frames (event_types s) (views s v) v)"
  by (simp_all add: push_view_handlers_def view_frames_def)

lemma invoke_shown_fields [simp]:
  "current_view (invoke_shown v s) = current_view s"
  "views (invoke_shown v s) = views s"
  "event_types (invoke_shown v s) = event_types s"
  "other_attrs (invoke_shown v s) = other_attrs s"
  "self (invoke_shown v s) = self s"
  "handlers_of (invoke_shown v s) = handlers_of s"
  "event_stack (invoke_shown v s) = event_stack s"
  "trace (invoke_shown v s)
     = trace s @ [Call (ViewObj v) ''on_show'', Call (ViewObj v) ''on_show_view'']
         @ (if has_sections (views s v) then [Call (SectionManagerObj v) ''on_show_view'']
            else [])"
  by (simp_all add: invoke_shown_def Let_def)

lemma section_frames_bind [simp]:
  "section_frames (views (bind_window v s) c) c' = section_frames (views s c) c'"
  by (simp add: section_frames_def)

lemma view_frames_bind [simp]:
  "view_frames t (views (bind_window v s) c) c' = view_frames t (views s c) c'"
  by (simp add: view_frames_def)

lemma show_view_NotAView: "show_view (NotAView ty) s = (Some (TypeError ty), s)"
  by (simp add: show_view_def)

lemma show_view_ViewRef:
  "fst (show_view (ViewRef v) s) = None"
  "current_view (snd (show_view (ViewRef v) s)) = Some v"
  "event_types (snd (show_view (ViewRef v) s)) = event_types s"
  "handlers_of (snd (show_view (ViewRef v) s)) = handlers_of s"
  "has_sections (views (snd (show_view (ViewRef v) s)) c) = has_sections (views s c)"
  "event_stack (snd (show_view (ViewRef v) s))
     = view_frames (event_types s) (views s v) v @ section_frames (views s v) v
         @ event_stack (remove_previous s)"
  by (simp_all add: show_view_def Let_def remove_previous_stack split: option.splits)

lemma show_view_trace:
  "trace (snd (show_view (ViewRef v) s))
     = trace s
         @ [Host ''screen.use'', Host ''viewport'']
         @ (if window (views s v) = None then [BindWindow v (self s)] else [])
         @ (case current_view s of
              None \<Rightarrow> []
            | Some c \<Rightarrow>
                Call (ViewObj c) ''on_hide_view''
                  # (if has_sections (views s c) then [RemoveHandlers (SectionManagerObj c)]
                     else [])
                  @ [RemoveHandlers (ViewObj c)])
         @ [SetCurrentView (Some v)]
         @ map PushHandlers (section_frames (views s v) v)
         @ map PushHandlers (view_frames (event_types s) (views s v) v)
         @ [Call (ViewObj v) ''on_show'', Call (ViewObj v) ''on_show_view'']
         @ (if has_sections (views s v) then [Call (SectionManagerObj v) ''on_show_view'']
            else [])"
  by (simp add: show_view_def Let_def remove_previous_trace split: option.splits)

lemma set_view_handlers:
  "set (view_handlers types vw v)
     = (\<lambda>e. (e, Method (ViewObj v) e))
         ` {e \<in> set types. e \<noteq> ''on_show'' \<and> e \<notin> set (section_manager_managed_events vw)
                             \<and> hasattr_view vw e}"
  by (simp add: view_handlers_def set_dict_of)

lemma strip_window_level:
  assumes "\<And>nh. nh \<in> set hs \<Longrightarrow> \<not> window_level_handler (snd nh)"
    and "window_level_only st"
  shows "strip_frame hs st = st"
proof (cases st)
  case Nil
  then show ?thesis by (simp add: strip_frame_def)
next
  case (Cons f r)
  have "\<not> owned_frame hs f"
    using owned_frame_matches [of hs f] window_level_no_match [of hs f] assms Cons
    by (auto simp: window_level_only_def)
  then show ?thesis using Cons by (simp add: strip_frame_def)
qed

lemma view_handlers_owned:
  assumes "view_handlers (event_types s) (views s v) v \<noteq> []"
  shows "owned_frame (handlers_of s (ViewObj v)) (view_handlers (event_types s) (views s v) v)"
  using assms
  by (auto simp: owned_frame_def list_all_iff set_view_handlers handlers_of_def
      obj_handlers_def obj_dir_def hasattr_view_def)

lemma set_section_handlers:
  "set (section_handlers sm v) = (\<lambda>e. (e, getattr_sm sm v e)) ` set (managed_events sm)"
  by (simp add: section_handlers_def set_dict_of)

lemma section_handlers_owned:
  assumes "sections_wf (event_types s) (views s v)"
    and "section_manager (views s v) = Some sm"
    and "section_handlers sm v \<noteq> []"
  shows "owned_frame (handlers_of s (SectionManagerObj v)) (section_handlers sm v)"
  using assms
  by (auto simp: owned_frame_def list_all_iff set_section_handlers handlers_of_def
      obj_handlers_def obj_dir_def sections_wf_def getattr_sm_def)

lemma stack_inv_show_view:
  assumes "stack_inv s" and "sections_wf (event_types s) (views s v)"
  shows "stack_inv (snd (show_view (ViewRef v) s))"
proof -
  let ?hv = "handlers_of s (ViewObj v)" and ?hs = "handlers_of s (SectionManagerObj v)"
  let ?base = "event_stack (remove_previous s)"
  let ?vf = "view_frames (event_types s) (views s v) v"
  let ?sf = "section_frames (views s v) v"
  have base: "window_level_only ?base" using assms(1) by (rule remove_previous_window_level)
  have sv: "strip_frame ?hv ?base = ?base"
    using strip_window_level view_handler_not_window_level base by blast
  have ss: "strip_frame ?hs ?base = ?base"
    using strip_window_level sm_handler_not_window_level base by blast
  have sf: "strip_frame ?hs (?sf @ ?base) = ?base \<and> has_sections (views s v)" if "?sf \<noteq> []"
    using that section_handlers_owned [OF assms(2)]
    by (auto simp: section_frames_def strip_frame_def has_sections_def split: option.splits if_splits)
  have sf_v: "strip_frame ?hv (?sf @ ?base) = ?sf @ ?base"
  proof (cases "?sf = []")
    case True
    then show ?thesis using sv by simp
  next
    case False
    then obtain f where f: "?sf = [f]" and "owned_frame ?hs f"
      using section_handlers_owned [OF assms(2)]
      by (auto simp: section_frames_def split: option.splits if_splits)
    then have "\<not> owned_frame ?hv f"
      using sm_frame_no_view_match [of s v f s v] owned_frame_matches [of ?hv f] by blast
    then show ?thesis using f by (simp add: strip_frame_def)
  qed
  have st1: "strip_frame ?hv (?vf @ ?sf @ ?base) = ?sf @ ?base"
  proof (cases "?vf = []")
    case True
    then show ?thesis using sf_v by simp
  next
    case False
    then have "?vf @ ?sf @ ?base = view_handlers (event_types s) (views s v) v # ?sf @ ?base"
      by (simp add: view_frames_def split: if_splits)
    moreover have "owned_frame ?hv (view_handlers (event_types s) (views s v) v)"
      using False view_handlers_owned [of s v] by (simp add: view_frames_def split: if_splits)
    ultimately show ?thesis by (simp add: strip_frame_def)
  qed
  have fin: "window_level_only
               (if has_sections (views s v) then strip_frame ?hs (?sf @ ?base) else ?sf @ ?base)"
  proof (cases "?sf = []")
    case True
    then show ?thesis using base ss by simp
  next
    case False
    then show ?thesis using sf base by simp
  qed
  show ?thesis
    using fin st1 by (auto simp: stack_inv_def show_view_ViewRef Let_def split: if_splits)
qed

lemma stack_inv_hide_view: "stack_inv s \<Longrightarrow> stack_inv (hide_view s)"
proof (cases "current_view s")
  case None
  then show "stack_inv s \<Longrightarrow> stack_inv (hide_view s)" by (simp add: hide_view_None)
next
  case (Some c)
  assume "stack_inv s"
  from stack_inv_removed [OF this Some] show "stack_inv (hide_view s)"
    using Some by (simp add: stack_inv_def hide_view_Some)
qed

lemma set_dict_set_subset: "set (dict_set d k v) \<subseteq> insert (k, v) (set d)"
  by (induction d) (auto split: if_splits)

lemma set_dict_of_subset: "set (dict_of d kvs) \<subseteq> set d \<union> set kvs"
proof (induction kvs arbitrary: d)
  case Nil
  then show ?case by simp
next
  case (Cons kv kvs)
  obtain k v where kv: "kv = (k, v)" by (cases kv)
  show ?case using Cons [of "dict_set d k v"] set_dict_set_subset [of d k v] kv by auto
qed

lemma stack_inv_Window_init:
  assumes "Window_init w a h = Inr s"
  shows "stack_inv s" and "current_view s = None"
proof -
  have wl: "list_all (\<lambda>nh. window_level_handler (snd nh)) (dict_of [] (concat (map (handlers_of s') obs)))"
    if "set obs \<subseteq> {KeyboardObj, MouseObj}" for s' obs
  proof -
    have a: "window_level_handler (snd nh)"
      if "nh \<in> set (concat (map (handlers_of s') obs))" for nh
      using that \<open>set obs \<subseteq> {KeyboardObj, MouseObj}\<close>
      by (auto simp: handlers_of_def window_level_handler_def dest!: in_obj_handlers)
    have "set (dict_of [] (concat (map (handlers_of s') obs)))
            \<subseteq> set (concat (map (handlers_of s') obs))"
      using set_dict_of_subset [of "[]" "concat (map (handlers_of s') obs)"] by simp
    then have "window_level_handler (snd nh)"
      if "nh \<in> set (dict_of [] (concat (map (handlers_of s') obs)))" for nh
      using that a by blast
    then show ?thesis by (simp add: list_all_iff)
  qed
  show "current_view s = None"
    using assms
    by (auto simp: Window_init_def Let_def push_handler_objects_def set_window_def
        set_update_rate_def schedule_interval_def unschedule_def split: if_splits)
  then show "stack_inv s"
    using assms wl [of "[KeyboardObj]"] wl [of "[KeyboardObj, MouseObj]"]
    by (auto simp: stack_inv_def Window_init_def Let_def push_handler_objects_def
        set_window_def set_update_rate_def schedule_interval_def unschedule_def
        window_level_only_def window_level_handler_def split: if_splits)
qed

lemma same_handlers_refl: "same_handlers s s"
  by (simp add: same_handlers_def)

lemma same_handlers_trans:
  "same_handlers s s' \<Longrightarrow> same_handlers s' s'' \<Longrightarrow> same_handlers s s''"
  by (simp add: same_handlers_def)

lemma stack_inv_same:
  assumes "same_handlers s s'"
  shows "stack_inv s' = stack_inv s"
proof -
  have "handlers_of s' = handlers_of s"
    using assms by (intro ext) (simp add: same_handlers_def handlers_of_def)
  then show ?thesis
    using assms by (cases "current_view s") (simp_all add: same_handlers_def stack_inv_def)
qed

lemma same_handlers_loop_body: "same_handlers s (loop_body s)"
  by (simp add: same_handlers_def loop_body_def dispatch_event_def)

lemma same_handlers_loop:
  assumes "fixed_update_loop n s = Some s'"
  shows "same_handlers s s'"
proof (rule fixed_update_loop.raw_induct [where P = "\<lambda>_ s s'. same_handlers s s'", OF _ assms])
  fix f :: "nat \<Rightarrow> world \<Rightarrow> world option" and n :: nat and s s' :: world
  assume IH: "\<And>n s s'. f n s = Some s' \<Longrightarrow> same_handlers s s'"
  assume body: "(if loop_cond n s then f (n + 1) (loop_body s) else Some s) = Some s'"
  show "same_handlers s s'"
  proof (cases "loop_cond n s")
    case True
    then have "f (n + 1) (loop_body s) = Some s'" using body by simp
    then have "same_handlers (loop_body s) s'" by (rule IH)
    then show ?thesis using same_handlers_loop_body same_handlers_trans by blast
  next
    case False
    then show ?thesis using body by (simp add: same_handlers_refl)
  qed
qed

lemma same_handlers_dispatch_updates:
  "dispatch_updates dt s = Some s' \<Longrightarrow> same_handlers s s'"
  by (auto simp: dispatch_updates_def dispatch_event_def same_handlers_def
      dest!: same_handlers_loop split: option.splits)

lemma same_handlers_rates:
  "same_handlers s (set_update_rate r s)"
  "same_handlers s (set_draw_rate r s)"
  "same_handlers s (close s)"
  by (simp_all add: same_handlers_def set_update_rate_def set_draw_rate_def close_def
      schedule_interval_def unschedule_def set_window_def)

lemma reachable_stack_inv: "reachable s \<Longrightarrow> stack_inv s"
proof (induction rule: reachable.induct)
  case (constructed w a h s)
  then show ?case by (rule stack_inv_Window_init(1))
next
  case (shown s v)
  then show ?case by (simp add: stack_inv_show_view)
next
  case (hidden s)
  then show ?case by (simp add: stack_inv_hide_view)
next
  case (fired s dt s')
  then show ?case using stack_inv_same [OF same_handlers_dispatch_updates] by blast
next
  case (update_rate_set s r)
  then show ?case using stack_inv_same [OF same_handlers_rates(1)] by blast
next
  case (draw_rate_set s r)
  then show ?case using stack_inv_same [OF same_handlers_rates(2)] by blast
next
  case (closed s)
  then show ?case using stack_inv_same [OF same_handlers_rates(3)] by blast
qed

lemma hide_view_from_stack_inv:
  assumes "stack_inv s"
  shows "(current_view s = None \<longrightarrow> hide_view s = s)
       \<and> (\<forall>c. current_view s = Some c \<longrightarrow>
            trace (hide_view s)
              = trace s @ [Call (ViewObj c) ''on_hide_view'']
                  @ (if has_sections (views s c)
                     then [Call (SectionManagerObj c) ''on_hide_view'',
                           RemoveHandlers (SectionManagerObj c)]
                     else [])
                  @ [RemoveHandlers (ViewObj c), SetCurrentView None])
       \<and> current_view (hide_view s) = None
       \<and> window_level_only (event_stack (hide_view s))
       \<and> (\<forall>name. list_all window_level_handler (handlers_for name (event_stack (hide_view s))))
       \<and> hide_view (hide_view s) = hide_view s"
proof -
  have cur: "current_view (hide_view s) = None"
    by (cases "current_view s") (simp_all add: hide_view_None hide_view_Some(1))
  have wl: "window_level_only (event_stack (hide_view s))"
  proof (cases "current_view s")
    case None
    then show ?thesis using assms by (simp add: hide_view_None stack_inv_def)
  next
    case (Some c)
    then show ?thesis using stack_inv_removed [OF assms Some] by (simp add: hide_view_Some(2))
  qed
  show ?thesis
    using cur wl hide_view_None [OF cur] by (simp add: hide_view_None hide_view_Some(3) window_level_handlers_for)
qed

lemma managed_events_from_stack_inv:
  assumes "stack_inv s" and "section_manager (views s v) = Some sm" and "sm_has_sections sm"
  shows "\<forall>e\<in>set (managed_events sm).
           e \<notin> fst ` set (view_handlers (event_types s) (views s v) v)
         \<and> filter (\<lambda>h. \<not> window_level_handler h)
              (handlers_for e (event_stack (snd (show_view (ViewRef v) s))))
             = [getattr_sm sm v e]"
proof
  fix e assume e: "e \<in> set (managed_events sm)"
  let ?base = "event_stack (remove_previous s)"
  have managed: "section_manager_managed_events (views s v) = managed_events sm"
    using assms by (simp add: section_manager_managed_events_def)
  have not_view: "e \<notin> fst ` set (view_handlers (event_types s) (views s v) v)"
    using e managed by (auto simp: set_view_handlers)
  have ne: "section_handlers sm v \<noteq> []"
    using e by (auto simp: section_handlers_def dict_of_empty_iff)
  then have sf: "section_frames (views s v) v = [section_handlers sm v]"
    using assms by (simp add: section_frames_def)
  have h_sf: "handlers_for e [section_handlers sm v] = [getattr_sm sm v e]"
    using e by (simp add: handlers_for_def section_handlers_def dict_of_lookup)
  have h_vf: "handlers_for e (view_frames (event_types s) (views s v) v) = []"
    using not_view by (auto simp: handlers_for_def view_frames_def filter_empty_conv)
  have h_app: "handlers_for e (a @ b) = handlers_for e a @ handlers_for e b" for a b
    by (simp add: handlers_for_def)
  have "list_all window_level_handler (handlers_for e ?base)"
    using assms(1) remove_previous_window_level window_level_handlers_for by blast
  then have h_base: "filter (\<lambda>h. \<not> window_level_handler h) (handlers_for e ?base) = []"
    by (auto simp: list_all_iff filter_empty_conv)
  have "\<not> window_level_handler (getattr_sm sm v e)"
    by (simp add: getattr_sm_def window_level_handler_def)
  moreover have "handlers_for e (event_stack (snd (show_view (ViewRef v) s)))
          = handlers_for e (view_frames (event_types s) (views s v) v)
              @ handlers_for e [section_handlers sm v] @ handlers_for e ?base"
    by (simp only: show_view_ViewRef(6) sf h_app)
  ultimately have "filter (\<lambda>h. \<not> window_level_handler h)
          (handlers_for e (event_stack (snd (show_view (ViewRef v) s)))) = [getattr_sm sm v e]"
    using h_sf h_vf h_base by simp
  with not_view show "e \<notin> fst ` set (view_handlers (event_types s) (views s v) v)
         \<and> filter (\<lambda>h. \<not> window_level_handler h)
              (handlers_for e (event_stack (snd (show_view (ViewRef v) s))))
             = [getattr_sm sm v e]" by simp
qed

section \<open>The examples: lemmas\<close>

lemma example_views [simp]:
  "views (example_window r cap) 0 = plain_view"
  "views (example_window r cap) (Suc 0) = sectioned_view"
  "views (example_window r cap) 2 = idle_manager_view"
  by (simp_all add: example_window_def example_host_def)

lemma example_fields [simp]:
  "current_view (example_window r cap) = None"
  "self (example_window r cap) = 0"
  "event_types (example_window r cap)
     = [''on_draw'', ''on_key_press'', ''on_mouse_press'', ''on_resize'', ''on_show'',
        ''on_update'', ''on_action'', ''on_fixed_update'']"
  "event_stack (example_window r cap)
     = [[(''on_key_press'', Method KeyboardObj ''on_key_press''),
         (''on_mouse_press'', Method MouseObj ''on_mouse_press'')],
        [(''on_resize'', Method (WindowObj 0) ''_on_resize'')]]"
  "scheduled (example_window r cap) = [(DispatchUpdates 0, 1 / 60)]"
  "active_window (example_window r cap) = Some 0"
  "trace (example_window r cap)
     = [PushHandlers [(''on_resize'', Method (WindowObj 0) ''_on_resize'')],
        PushHandlers
          [(''on_key_press'', Method KeyboardObj ''on_key_press''),
           (''on_mouse_press'', Method MouseObj ''on_mouse_press'')]]"
  by (simp_all add: example_window_def)

lemma example_view_fields [simp]:
  "window plain_view = None" "section_manager plain_view = None" "attrs plain_view = []"
  "window sectioned_view = None" "section_manager sectioned_view = Some sectioned_manager"
  "attrs sectioned_view = []"
  "window idle_manager_view = None" "section_manager idle_manager_view = Some idle_manager"
  "attrs idle_manager_view = []"
  "sm_has_sections sectioned_manager" "managed_events sectioned_manager = [''on_draw'']"
  "sm_attrs sectioned_manager = [''on_draw'', ''on_show_view'', ''on_hide_view'']"
  "\<not> sm_has_sections idle_manager" "managed_events idle_manager = [''on_draw'']"
  by (simp_all add: plain_view_def sectioned_view_def idle_manager_view_def
      sectioned_manager_def idle_manager_def)

lemma example_has_sections [simp]:
  "\<not> has_sections plain_view" "has_sections sectioned_view" "\<not> has_sections idle_manager_view"
  by (simp_all add: has_sections_def)

lemma example_view_handlers:
  "view_handlers
     [''on_draw'', ''on_key_press'', ''on_mouse_press'', ''on_resize'', ''on_show'',
        ''on_update'', ''on_action'', ''on_fixed_update'']
     plain_view v
     = [(''on_draw'', Method (ViewObj v) ''on_draw''),
        (''on_key_press'', Method (ViewObj v) ''on_key_press''),
        (''on_mouse_press'', Method (ViewObj v) ''on_mouse_press''),
        (''on_resize'', Method (ViewObj v) ''on_resize''),
        (''on_update'', Method (ViewObj v) ''on_update''),
        (''on_fixed_update'', Method (ViewObj v) ''on_fixed_update'')]"
  "view_handlers
     [''on_draw'', ''on_key_press'', ''on_mouse_press'', ''on_resize'', ''on_show'',
        ''on_update'', ''on_action'', ''on_fixed_update'']
     idle_manager_view v
     = [(''on_draw'', Method (ViewObj v) ''on_draw''),
        (''on_key_press'', Method (ViewObj v) ''on_key_press''),
        (''on_mouse_press'', Method (ViewObj v) ''on_mouse_press''),
        (''on_resize'', Method (ViewObj v) ''on_resize''),
        (''on_update'', Method (ViewObj v) ''on_update''),
        (''on_fixed_update'', Method (ViewObj v) ''on_fixed_update'')]"
  "view_handlers
     [''on_draw'', ''on_key_press'', ''on_mouse_press'', ''on_resize'', ''on_show'',
        ''on_update'', ''on_action'', ''on_fixed_update'']
     sectioned_view v
     = [(''on_key_press'', Method (ViewObj v) ''on_key_press''),
        (''on_mouse_press'', Method (ViewObj v) ''on_mouse_press''),
        (''on_resize'', Method (ViewObj v) ''on_resize''),
        (''on_update'', Method (ViewObj v) ''on_update''),
        (''on_fixed_update'', Method (ViewObj v) ''on_fixed_update'')]"
  by (simp_all add: view_handlers_def section_manager_managed_events_def hasattr_view_def
      View_attributes_def)

lemma example_section_frames:
  "section_frames plain_view v = []"
  "section_frames idle_manager_view v = []"
  "section_frames sectioned_view v = [[(''on_draw'', Method (SectionManagerObj v) ''on_draw'')]]"
  by (simp_all add: section_frames_def section_handlers_def getattr_sm_def)

lemma example_stack_inv: "stack_inv (example_window r cap)"
  using stack_inv_Window_init(1) [OF Window_init_example] .

lemma show_view_views:
  "views (snd (show_view (ViewRef v) s)) = views (bind_window v s)"
  by (simp add: show_view_def Let_def bind_window_def)

lemma bind_window_window:
  "window (views (bind_window v s) v)
     = (if window (views s v) = None then Some (self s) else window (views s v))"
  by (simp add: bind_window_def)

lemma Window_init_fields:
  assumes "Window_init w a h = Inr s"
  shows "fixed_rate s = arg_fixed_rate a" and "fixed_frame_cap s = arg_fixed_frame_cap a"
    and "rate (fixed_clock s) = arg_fixed_rate a" and "accumulated s = 0"
    and "time (global_clock s) = 0" and "fixed_time (fixed_clock s) = 0"
  using assms
  by (auto simp: Window_init_def Let_def push_handler_objects_def push_handlers_def
      set_window_def set_update_rate_def schedule_interval_def unschedule_def emit_def
      accumulated_def Clock_init_def FixedClock_init_def split: if_splits)

section \<open>The view protocol: claims\<close>

text \<open>
  Claim C4, as amended. The claim puts the assignment of \<^verbatim>\<open>current_view\<close> after the two
  pushes; the source assigns first. For every call \<^verbatim>\<open>show_view(x)\<close> that raises nothing,
  \<open>x\<close> is a view \<open>v\<close>, and what the call does is, in this order: the calls into the
  graphics host, the binding of the view's window if it had none, the hiding of the view
  shown before (its hide hook, the removal of its section manager's handlers if it has
  sections, the removal of its own), the assignment \<^verbatim>\<open>current_view = v\<close>, the push of the
  section manager's frame, the push of the view's own frame, and only then the hooks
  \<^verbatim>\<open>on_show\<close>, \<^verbatim>\<open>on_show_view\<close> and, with sections, the manager's \<^verbatim>\<open>on_show_view\<close>.
  The view's own frame binds exactly the registered event types that the view has,
  other than \<^verbatim>\<open>on_show\<close> and the events its sections manage.
\<close>

theorem show_view_assigns_then_pushes_then_shows:
  assumes "show_view x s = (None, s')"
  shows "\<exists>v. x = ViewRef v
           \<and> current_view s' = Some v
           \<and> trace s'
               = trace s
                   @ [Host ''screen.use'', Host ''viewport'']
                   @ (if window (views s v) = None then [BindWindow v (self s)] else [])
                   @ (case current_view s of
                        None \<Rightarrow> []
                      | Some c \<Rightarrow>
                          Call (ViewObj c) ''on_hide_view''
                            # (if has_sections (views s c)
                               then [RemoveHandlers (SectionManagerObj c)] else [])
                            @ [RemoveHandlers (ViewObj c)])
                   @ [SetCurrentView (Some v)]
                   @ map PushHandlers (section_frames (views s v) v)
                   @ map PushHandlers (view_frames (event_types s) (views s v) v)
                   @ [Call (ViewObj v) ''on_show'', Call (ViewObj v) ''on_show_view'']
                   @ (if has_sections (views s v)
                      then [Call (SectionManagerObj v) ''on_show_view''] else [])
           \<and> set (view_handlers (event_types s) (views s v) v)
               = (\<lambda>e. (e, Method (ViewObj v) e))
                   ` {e \<in> set (event_types s).
                        e \<noteq> ''on_show''
                        \<and> e \<notin> set (section_manager_managed_events (views s v))
                        \<and> hasattr_view (views s v) e}"
proof (cases x)
  case (NotAView ty)
  then show ?thesis using assms by (simp add: show_view_NotAView)
next
  case (ViewRef v)
  then have s': "s' = snd (show_view (ViewRef v) s)" using assms by simp
  show ?thesis
    unfolding s' using ViewRef
    by (simp only: show_view_ViewRef(2) show_view_trace set_view_handlers) simp
qed

text \<open>
  The theorem at the view with sections, shown on the new window: the order of the nine
  actions.
\<close>

theorem show_view_assigns_then_pushes_then_shows_witness:
  "show_view (ViewRef 1) (example_window (1 / 60) None)
     = (None, snd (show_view (ViewRef 1) (example_window (1 / 60) None)))
   \<and> current_view (snd (show_view (ViewRef 1) (example_window (1 / 60) None))) = Some 1
   \<and> trace (snd (show_view (ViewRef 1) (example_window (1 / 60) None)))
       = trace (example_window (1 / 60) None)
           @ [Host ''screen.use'', Host ''viewport'', BindWindow 1 0,
              SetCurrentView (Some 1),
              PushHandlers [(''on_draw'', Method (SectionManagerObj 1) ''on_draw'')],
              PushHandlers
                [(''on_key_press'', Method (ViewObj 1) ''on_key_press''),
                 (''on_mouse_press'', Method (ViewObj 1) ''on_mouse_press''),
                 (''on_resize'', Method (ViewObj 1) ''on_resize''),
                 (''on_update'', Method (ViewObj 1) ''on_update''),
                 (''on_fixed_update'', Method (ViewObj 1) ''on_fixed_update'')],
              Call (ViewObj 1) ''on_show'', Call (ViewObj 1) ''on_show_view'',
              Call (SectionManagerObj 1) ''on_show_view'']"
proof -
  let ?w = "example_window (1 / 60) None"
  have h: "show_view (ViewRef 1) ?w = (None, snd (show_view (ViewRef 1) ?w))"
    by (simp add: prod_eq_iff show_view_ViewRef(1))
  from show_view_assigns_then_pushes_then_shows [OF h] h show ?thesis
    by (simp add: example_view_handlers example_section_frames view_frames_def)
qed

text \<open>
  Claim C4 as stated fails: on the new window, \<^verbatim>\<open>show_view\<close> of the plain view pushes
  the view's frame after it has assigned \<^verbatim>\<open>current_view\<close>.
\<close>

theorem show_view_assigns_before_pushing_counterexample:
  "\<not> pushes_precede_assignment
       (drop (length (trace (example_window (1 / 60) None)))
          (trace (snd (show_view (ViewRef 0) (example_window (1 / 60) None)))))"
  by (simp add: show_view_trace example_view_handlers example_section_frames view_frames_def
      pushes_precede_assignment_def)

text \<open>
  Claim C5: for a value that is not a View, \<^verbatim>\<open>show_view\<close> raises the type error and
  leaves the state as it was: the current view, the handler stack, the views and the
  trace (so no hook of the active view is called).
\<close>

theorem show_view_rejects_non_view:
  "show_view (NotAView ty) s = (Some (TypeError ty), s)"
  by (simp add: show_view_def)

text \<open>
  The theorem for the value \<^verbatim>\<open>int\<close> while the plain view is active.
\<close>

theorem show_view_rejects_non_view_witness:
  "show_view (NotAView ''int'') (snd (show_view (ViewRef 0) (example_window (1 / 60) None)))
     = (Some (TypeError ''int''), snd (show_view (ViewRef 0) (example_window (1 / 60) None)))"
  by (rule show_view_rejects_non_view)

text \<open>
  Claim C6, as amended. The claim has the section manager's hide hook called whenever
  the view has a manager; the source calls it when the view has sections
  (\<^verbatim>\<open>has_sections\<close>). In every reachable state: with no view active \<^verbatim>\<open>hide_view\<close> changes
  nothing; with the view \<open>c\<close> active it calls the view's hide hook, then with sections
  the manager's hide hook and the removal of the manager's handlers, then the removal of
  the view's handlers, and clears \<^verbatim>\<open>current_view\<close>. Afterwards no view is current, the
  stack holds window-level handlers only, so a dispatch of any event reaches only those,
  and a second \<^verbatim>\<open>hide_view\<close> changes nothing.
\<close>

theorem hide_view_protocol:
  assumes "reachable s"
  shows "(current_view s = None \<longrightarrow> hide_view s = s)
       \<and> (\<forall>c. current_view s = Some c \<longrightarrow>
            trace (hide_view s)
              = trace s @ [Call (ViewObj c) ''on_hide_view'']
                  @ (if has_sections (views s c)
                     then [Call (SectionManagerObj c) ''on_hide_view'',
                           RemoveHandlers (SectionManagerObj c)]
                     else [])
                  @ [RemoveHandlers (ViewObj c), SetCurrentView None])
       \<and> current_view (hide_view s) = None
       \<and> window_level_only (event_stack (hide_view s))
       \<and> (\<forall>name. list_all window_level_handler (handlers_for name (event_stack (hide_view s))))
       \<and> hide_view (hide_view s) = hide_view s"
  using assms by (intro hide_view_from_stack_inv reachable_stack_inv)

text \<open>
  The theorem in the state where the view with sections has been shown on the new
  window.
\<close>

theorem hide_view_protocol_witness:
  "reachable (snd (show_view (ViewRef 1) (example_window (1 / 60) None)))
   \<and> current_view (snd (show_view (ViewRef 1) (example_window (1 / 60) None))) = Some 1
   \<and> trace (hide_view (snd (show_view (ViewRef 1) (example_window (1 / 60) None))))
       = trace (snd (show_view (ViewRef 1) (example_window (1 / 60) None)))
           @ [Call (ViewObj 1) ''on_hide_view'', Call (SectionManagerObj 1) ''on_hide_view'',
              RemoveHandlers (SectionManagerObj 1), RemoveHandlers (ViewObj 1),
              SetCurrentView None]
   \<and> current_view (hide_view (snd (show_view (ViewRef 1) (example_window (1 / 60) None)))) = None
   \<and> window_level_only
         (event_stack (hide_view (snd (show_view (ViewRef 1) (example_window (1 / 60) None)))))
   \<and> list_all window_level_handler
         (handlers_for ''on_draw''
            (event_stack (hide_view (snd (show_view (ViewRef 1) (example_window (1 / 60) None))))))
   \<and> hide_view (hide_view (snd (show_view (ViewRef 1) (example_window (1 / 60) None))))
       = hide_view (snd (show_view (ViewRef 1) (example_window (1 / 60) None)))"
proof -
  let ?s = "snd (show_view (ViewRef 1) (example_window (1 / 60) None))"
  have wf: "sections_wf (event_types (example_window (1 / 60) None))
              (views (example_window (1 / 60) None) 1)"
    by (simp add: sections_wf_def)
  have inv: "reachable ?s"
    using reachable.constructed [OF Window_init_example] wf by (rule reachable.shown)
  have cur: "current_view ?s = Some 1" by (rule show_view_ViewRef(2))
  have hs: "has_sections (views ?s 1)" by (simp add: show_view_ViewRef(5))
  from hide_view_protocol [OF inv] inv cur hs show ?thesis by simp
qed

text \<open>
  Claim C6 as stated fails for a view whose section manager exists and has no section:
  \<^verbatim>\<open>hide_view\<close> does not call the manager's hide hook.
\<close>

theorem hide_view_idle_manager_counterexample:
  "current_view (snd (show_view (ViewRef 2) (example_window (1 / 60) None))) = Some 2
   \<and> section_manager (views (snd (show_view (ViewRef 2) (example_window (1 / 60) None))) 2)
       = Some idle_manager
   \<and> Call (SectionManagerObj 2) ''on_hide_view''
       \<notin> set (trace (hide_view (snd (show_view (ViewRef 2) (example_window (1 / 60) None)))))"
  by (simp add: show_view_ViewRef(2) show_view_views show_view_trace hide_view_Some(3)
      show_view_ViewRef(5) example_view_handlers example_section_frames view_frames_def)

text \<open>
  Claim C8, as amended. The claim speaks of every view whose section manager manages
  some events; the source lets the manager own them only when the view has sections.
  For a view with sections, shown in a reachable state: no event the manager
  manages is a key of the view's own frame, and on the resulting stack the one handler
  for such an event that is not at window level is the section manager's
  \<^verbatim>\<open>getattr(section_manager, event, None)\<close>. So no managed event is delivered to a
  handler of the view.
\<close>

theorem sectioned_view_owns_no_managed_event:
  assumes "reachable s" and "section_manager (views s v) = Some sm" and "sm_has_sections sm"
  shows "\<forall>e\<in>set (managed_events sm).
           e \<notin> fst ` set (view_handlers (event_types s) (views s v) v)
         \<and> filter (\<lambda>h. \<not> window_level_handler h)
              (handlers_for e (event_stack (snd (show_view (ViewRef v) s))))
             = [getattr_sm sm v e]"
  using assms by (intro managed_events_from_stack_inv reachable_stack_inv)

text \<open>
  The theorem for the view with sections and the event \<^verbatim>\<open>on_draw\<close>.
\<close>

theorem sectioned_view_owns_no_managed_event_witness:
  "reachable (example_window (1 / 60) None)
   \<and> section_manager (views (example_window (1 / 60) None) 1) = Some sectioned_manager
   \<and> sm_has_sections sectioned_manager
   \<and> ''on_draw'' \<in> set (managed_events sectioned_manager)
   \<and> ''on_draw'' \<notin> fst ` set (view_handlers (event_types (example_window (1 / 60) None))
                                  (views (example_window (1 / 60) None) 1) 1)
   \<and> filter (\<lambda>h. \<not> window_level_handler h)
        (handlers_for ''on_draw''
           (event_stack (snd (show_view (ViewRef 1) (example_window (1 / 60) None)))))
       = [Method (SectionManagerObj 1) ''on_draw'']"
proof -
  let ?w = "example_window (1 / 60) None"
  have a: "reachable ?w" by (rule reachable.constructed [OF Window_init_example])
  have b: "section_manager (views ?w 1) = Some sectioned_manager" by simp
  have c: "sm_has_sections sectioned_manager" by simp
  have d: "''on_draw'' \<in> set (managed_events sectioned_manager)" by simp
  have e: "getattr_sm sectioned_manager 1 ''on_draw'' = Method (SectionManagerObj 1) ''on_draw''"
    by (simp add: getattr_sm_def)
  from sectioned_view_owns_no_managed_event [OF a b c] d e a b c show ?thesis by auto
qed

text \<open>
  Claim C8 as stated fails for a view whose section manager manages \<^verbatim>\<open>on_draw\<close> and
  has no section: \<^verbatim>\<open>show_view\<close> binds \<^verbatim>\<open>on_draw\<close> to the view's own handler.
\<close>

theorem idle_section_manager_counterexample:
  "section_manager (views (example_window (1 / 60) None) 2) = Some idle_manager
   \<and> managed_events idle_manager = [''on_draw'']
   \<and> handlers_for ''on_draw''
        (event_stack (snd (show_view (ViewRef 2) (example_window (1 / 60) None))))
       = [Method (ViewObj 2) ''on_draw'']"
  by (simp add: show_view_ViewRef(6) remove_previous_stack example_view_handlers
      example_section_frames view_frames_def handlers_for_def)

text \<open>
  Claim C10, as amended. The claim has a view that is unattached after construction;
  with \<open>get_window\<close> as modelled there is none. The constructor either raises, which it
  does exactly when no window is passed and no window is current, or makes a view whose
  window is the one passed or else the current one: the back-reference is set, the
  class's attribute names are those given and there is no section manager yet. A later
  \<^verbatim>\<open>show_view\<close>, which binds the window only of a view that has none, leaves the
  back-reference as constructed.
\<close>

theorem view_constructed_attached:
  "(case View_init v cls warg s of
      Inl e \<Rightarrow> e = RuntimeError \<and> warg = None \<and> active_window s = None
    | Inr s' \<Rightarrow>
        window (views s' v) = (case warg of None \<Rightarrow> active_window s | Some w \<Rightarrow> Some w)
        \<and> window (views s' v) \<noteq> None
        \<and> attrs (views s' v) = cls
        \<and> section_manager (views s' v) = None
        \<and> window (views (snd (show_view (ViewRef v) s')) v) = window (views s' v))"
  by (auto simp: View_init_def get_window_def show_view_views bind_window_window
      split: option.splits sum.splits)

text \<open>
  The theorem for a view made with no window argument while window 0 is current, and
  for one made after the window has been closed.
\<close>

theorem view_constructed_attached_witness:
  "(case View_init 7 [] None (example_window (1 / 60) None) of
      Inl e \<Rightarrow> False
    | Inr s' \<Rightarrow>
        window (views s' 7) = Some 0
        \<and> window (views (snd (show_view (ViewRef 7) s')) 7) = Some 0)
   \<and> View_init 7 [] None (close (example_window (1 / 60) None)) = Inl RuntimeError"
  using view_constructed_attached
          [where v = 7 and cls = "[]" and warg = None and s = "example_window (1 / 60) None"]
    view_constructed_attached
          [where v = 7 and cls = "[]" and warg = None
             and s = "close (example_window (1 / 60) None)"]
  by (auto simp: View_init_def get_window_def close_def unschedule_def set_window_def
      split: sum.splits)

text \<open>
  Claim C10 as stated fails: no construction that succeeds leaves the view without a
  window.
\<close>

theorem no_view_constructed_unattached_counterexample:
  "\<not> (\<exists>v cls warg s s'. View_init v cls warg s = Inr s' \<and> window (views s' v) = None)"
  by (auto simp: View_init_def get_window_def split: option.splits sum.splits)

section \<open>Construction and closing: claims\<close>

text \<open>
  Claim C7, as amended. The claim has \<^verbatim>\<open>close\<close> unschedule the update trigger and the
  draw trigger; the source unschedules the update trigger only. After \<^verbatim>\<open>close\<close> the
  schedule is the one before without the window's \<^verbatim>\<open>_dispatch_updates\<close>: the update
  trigger is not scheduled any more, and the entries of the draw trigger are those that
  were there.
\<close>

theorem close_unschedules_update_trigger_only:
  "scheduled (close s) = filter (\<lambda>e. fst e \<noteq> DispatchUpdates (self s)) (scheduled s)
   \<and> DispatchUpdates (self s) \<notin> fst ` set (scheduled (close s))
   \<and> filter (\<lambda>e. fst e = RedrawWindows) (scheduled (close s))
       = filter (\<lambda>e. fst e = RedrawWindows) (scheduled s)"
proof -
  have "filter (\<lambda>e. fst e = RedrawWindows) (filter (\<lambda>e. fst e \<noteq> DispatchUpdates w) xs)
          = filter (\<lambda>e. fst e = RedrawWindows) xs" for w and xs :: "(callback \<times> rat) list"
    by (induction xs) auto
  then show ?thesis by (auto simp: close_def unschedule_def set_window_def)
qed

text \<open>
  The theorem for the new window after \<^verbatim>\<open>set_draw_rate(1/30)\<close>.
\<close>

theorem close_unschedules_update_trigger_only_witness:
  "scheduled (set_draw_rate (1 / 30) (example_window (1 / 60) None))
     = [(DispatchUpdates 0, 1 / 60), (RedrawWindows, 1 / 30)]
   \<and> scheduled (close (set_draw_rate (1 / 30) (example_window (1 / 60) None)))
       = [(RedrawWindows, 1 / 30)]"
  using close_unschedules_update_trigger_only
          [of "set_draw_rate (1 / 30) (example_window (1 / 60) None)"]
  by (simp add: set_draw_rate_def schedule_interval_def unschedule_def)

text \<open>
  Claim C7 as stated fails: after \<^verbatim>\<open>set_draw_rate(1/30)\<close> and \<^verbatim>\<open>close\<close> the draw trigger
  is still scheduled.
\<close>

theorem close_keeps_draw_trigger_counterexample:
  "(RedrawWindows, 1 / 30)
     \<in> set (scheduled (close (set_draw_rate (1 / 30) (example_window (1 / 60) None))))"
  by (simp add: close_def set_draw_rate_def schedule_interval_def unschedule_def
      set_window_def)

text \<open>
  Claim C9, as amended. The claim has the constructor raise for a fixed rate that is not
  positive; the source never looks at the sign. Whenever the host gives an OpenGL
  context, the constructor returns a window that stores the rate as given. The failure
  comes at first use: with a rate that is not positive and no cap, a firing of the update
  trigger with a frame delta that is not negative never returns.
\<close>

theorem Window_init_takes_any_fixed_rate:
  assumes "context_available h"
  shows "\<exists>s. Window_init w a h = Inr s
           \<and> fixed_rate s = arg_fixed_rate a
           \<and> rate (fixed_clock s) = arg_fixed_rate a
           \<and> (arg_fixed_rate a \<le> 0 \<and> arg_fixed_frame_cap a = None
                \<longrightarrow> (\<forall>dt\<ge>0. dispatch_updates dt s = None))"
proof -
  obtain s where s: "Window_init w a h = Inr s"
    using assms by (simp add: Window_init_def Let_def)
  have "dispatch_updates dt s = None"
    if "arg_fixed_rate a \<le> 0" "arg_fixed_frame_cap a = None" "0 \<le> dt" for dt
  proof -
    let ?s0 = "s\<lparr>global_clock := Clock_tick dt (global_clock s)\<rparr>"
    have "0 \<le> time (global_clock ?s0)"
      using that(3) Window_init_fields(5) [OF s] by (simp add: Clock_tick_def double_nonneg)
    moreover have "fixed_time (fixed_clock ?s0) \<le> 0"
      using Window_init_fields(6) [OF s] by simp
    ultimately have "fixed_update_loop 0 ?s0 = None"
      using that Window_init_fields(1,2) [OF s]
      by (intro uncapped_nonpositive_rate_never_returns) simp_all
    then show ?thesis by (simp add: dispatch_updates_def)
  qed
  then show ?thesis using s Window_init_fields(1,3) [OF s] by blast
qed

text \<open>
  The theorem for a fixed rate of -1/60 with no cap.
\<close>

theorem Window_init_takes_any_fixed_rate_witness:
  "context_available example_host
   \<and> Window_init 0 (example_args (- 1 / 60) None) example_host
       = Inr (example_window (- 1 / 60) None)
   \<and> fixed_rate (example_window (- 1 / 60) None) = - 1 / 60
   \<and> dispatch_updates (1 / 60) (example_window (- 1 / 60) None) = None"
proof -
  have h: "context_available example_host" by (simp add: example_host_def)
  from Window_init_takes_any_fixed_rate [OF h, of 0 "example_args (- 1 / 60) None"] h
  show ?thesis
    by (simp add: Window_init_example) (simp add: example_args_def example_window_def)
qed

text \<open>
  Claim C9 as stated fails: the constructor returns a window for the fixed rates 0 and
  -1/60.
\<close>

theorem Window_init_nonpositive_rate_counterexample:
  "Window_init 0 (example_args 0 None) example_host = Inr (example_window 0 None)
   \<and> Window_init 0 (example_args (- 1 / 60) (Some 3)) example_host
       = Inr (example_window (- 1 / 60) (Some 3))"
  by (simp add: Window_init_example)

end
